theory Spec2Isabelle
  imports Complex_Main "HOL-Library.AList" "HOL-Library.Char_ord" "HOL-Library.List_Lexorder"
    "HOL-Library.Product_Lexorder"
begin

section \<open>Numbers, errors and library primitives\<close>

text \<open>
  The detector output holds IEEE floating point numbers. The decoder of
  \<^verbatim>\<open>detect_trt_server.py\<close> and \<^verbatim>\<open>detect_trt_fp32_server.py\<close> tests them
  with \<^verbatim>\<open>np.isnan\<close>, \<^verbatim>\<open>math.isfinite\<close> and \<^verbatim>\<open><\<close>, so the model keeps the three
  special values apart from the finite ones. Finite values are real numbers and the
  arithmetic on them is exact: rounding and overflow of the hardware are not modelled.
\<close>

datatype fl = NaN | PInf | NInf | Fin real

fun isnan :: "fl \<Rightarrow> bool" where
  "isnan NaN = True"
| "isnan _ = False"

fun isfinite :: "fl \<Rightarrow> bool" where
  "isfinite (Fin _) = True"
| "isfinite _ = False"

text \<open>Python's \<^verbatim>\<open>a < b\<close> on floats: every comparison with NaN is false.\<close>

fun fl_lt :: "fl \<Rightarrow> fl \<Rightarrow> bool" where
  "fl_lt NaN _ = False"
| "fl_lt _ NaN = False"
| "fl_lt (Fin a) (Fin b) = (a < b)"
| "fl_lt (Fin _) PInf = True"
| "fl_lt (Fin _) NInf = False"
| "fl_lt NInf NInf = False"
| "fl_lt NInf _ = True"
| "fl_lt PInf _ = False"

text \<open>Python's \<^verbatim>\<open>a <= b\<close> and \<^verbatim>\<open>a >= b\<close>.\<close>

definition fl_le :: "fl \<Rightarrow> fl \<Rightarrow> bool" where
  "fl_le a b = (\<not> isnan a \<and> \<not> isnan b \<and> \<not> fl_lt b a)"

definition fl_ge :: "fl \<Rightarrow> fl \<Rightarrow> bool" where
  "fl_ge a b = fl_le b a"

text \<open>\<^verbatim>\<open>float(v)\<close> of a finite entry; only applied after \<^verbatim>\<open>math.isfinite\<close>.\<close>

fun float_val :: "fl \<Rightarrow> real" where
  "float_val (Fin r) = r"
| "float_val _ = 0"

text \<open>\<^verbatim>\<open>int(x)\<close> of a finite float truncates towards zero.\<close>

definition py_int :: "real \<Rightarrow> int" where
  "py_int x = (if 0 \<le> x then \<lfloor>x\<rfloor> else \<lceil>x\<rceil>)"

datatype py_error =
    ValueError | IndexError | AttributeError | KeyError | ZeroDivisionError
  | CvError | EngineError | OSError

text \<open>
  \<^verbatim>\<open>np.argmax\<close>: the index of the first maximum; a NaN counts as the maximum and ends
  the scan. The scan keeps the running maximum, its index and the next index.
\<close>

fun argmax_from :: "fl \<Rightarrow> nat \<Rightarrow> nat \<Rightarrow> fl list \<Rightarrow> nat" where
  "argmax_from mp mi i [] = mi"
| "argmax_from mp mi i (x # xs) =
     (if isnan mp then mi
      else if \<not> fl_le x mp then argmax_from x i (Suc i) xs
      else argmax_from mp mi (Suc i) xs)"

fun argmax :: "fl list \<Rightarrow> nat" where
  "argmax [] = 0"
| "argmax (x # xs) = argmax_from x 0 1 xs"

section \<open>The decoder loop of postprocess_image\<close>

text \<open>
  The source appends to the parallel lists \<^verbatim>\<open>class_ids\<close>, \<^verbatim>\<open>confidences\<close>,
  \<^verbatim>\<open>bboxes\<close> and \<^verbatim>\<open>yolo_bboxes\<close> in one place only, so one record per appended
  entry holds the same data. A box is \<^verbatim>\<open>[top_left_x, top_left_y, width_scaled,
  height_scaled]\<close>. The fp32 server keeps no \<^verbatim>\<open>yolo_bboxes\<close>.
\<close>

type_synonym box = "int \<times> int \<times> int \<times> int"

record candidate =
  class_id :: nat
  confidence :: fl
  bbox :: box
  yolo_box :: "real \<times> real \<times> real \<times> real"

text \<open>
  The lines under \<^verbatim>\<open># Calculate box coordinates\<close>: from the centre box of the model
  input to corner, width and height in the original image. \<^verbatim>\<open>max\<close> keeps the corner
  at or above zero, \<^verbatim>\<open>min\<close> keeps the box inside the image.
\<close>

definition scaled_box :: "nat \<Rightarrow> nat \<Rightarrow> real \<Rightarrow> real \<Rightarrow> real \<Rightarrow> real \<Rightarrow> real \<Rightarrow> real \<Rightarrow> box" where
  "scaled_box height width scale_x scale_y cx cy w h =
     (let top_left_x = max 0 (py_int ((cx - w / 2) * scale_x));
          top_left_y = max 0 (py_int ((cy - h / 2) * scale_y));
          width_scaled = min (int width - top_left_x) (py_int (w * scale_x));
          height_scaled = min (int height - top_left_y) (py_int (h * scale_y))
      in (top_left_x, top_left_y, width_scaled, height_scaled))"

text \<open>
  One pass of the body of \<^verbatim>\<open>for detect in yolov5_output[0]\<close>. \<^verbatim>\<open>Inr None\<close> is a
  \<^verbatim>\<open>continue\<close>, \<^verbatim>\<open>Inr (Some c)\<close> an append, \<^verbatim>\<open>Inl e\<close> an exception that leaves the
  loop: \<^verbatim>\<open>detect[4]\<close> on a row of fewer than five entries, \<^verbatim>\<open>np.argmax\<close> on a row
  with no class scores. The single-threshold server passes \<^verbatim>\<open>conf_th\<close> for
  \<^verbatim>\<open>score_th\<close>. The \<^verbatim>\<open>try\<close> of the source guards \<^verbatim>\<open>int\<close> against non-finite
  products, which exact arithmetic on finite values never yields.
\<close>

definition decode_row ::
  "fl \<Rightarrow> fl \<Rightarrow> nat \<Rightarrow> nat \<Rightarrow> real \<Rightarrow> real \<Rightarrow> fl list \<Rightarrow> py_error + candidate option" where
  "decode_row conf_th score_th height width scale_x scale_y detect =
     (if list_ex isnan detect then Inr None
      else if length detect \<le> 4 then Inl IndexError
      else
        let conf = detect ! 4 in
        if fl_lt conf conf_th then Inr None
        else
          let class_score = drop 5 detect in
          if class_score = [] then Inl ValueError
          else
            let class_idx = argmax class_score in
            if fl_lt (class_score ! class_idx) score_th then Inr None
            else if \<not> list_all isfinite [detect ! 0, detect ! 1, detect ! 2, detect ! 3]
            then Inr None
            else
              let cx = float_val (detect ! 0); cy = float_val (detect ! 1);
                  w = float_val (detect ! 2); h = float_val (detect ! 3);
                  box = scaled_box height width scale_x scale_y cx cy w h
              in
                if fst (snd (snd box)) \<le> 0 \<or> snd (snd (snd box)) \<le> 0 then Inr None
                else Inr (Some \<lparr>class_id = class_idx, confidence = conf, bbox = box,
                                 yolo_box = (cx, cy, w, h)\<rparr>))"

fun decode_rows ::
  "fl \<Rightarrow> fl \<Rightarrow> nat \<Rightarrow> nat \<Rightarrow> real \<Rightarrow> real \<Rightarrow> fl list list \<Rightarrow> py_error + candidate list" where
  "decode_rows conf_th score_th height width scale_x scale_y [] = Inr []"
| "decode_rows conf_th score_th height width scale_x scale_y (detect # rest) =
     (case decode_row conf_th score_th height width scale_x scale_y detect of
        Inl e \<Rightarrow> Inl e
      | Inr None \<Rightarrow> decode_rows conf_th score_th height width scale_x scale_y rest
      | Inr (Some c) \<Rightarrow>
          (case decode_rows conf_th score_th height width scale_x scale_y rest of
             Inl e \<Rightarrow> Inl e
           | Inr cs \<Rightarrow> Inr (c # cs)))"

section \<open>Images, configuration and the state of the inferencer\<close>

text \<open>
  An image is its shape, its pixels (left abstract) and the drawing commands applied to
  it so far, oldest first. \<^verbatim>\<open>cv2.putText\<close> of the warning caption is \<open>PutText\<close>;
  the three drawing calls per detection are \<open>Rectangle\<close> (corner to corner),
  \<open>LabelBackground\<close> (the filled rectangle above the corner) and \<open>LabelText\<close>,
  whose text is kept as its two parts: the class name shown and the confidence shown.
\<close>

datatype draw =
    PutText string nat nat
  | Rectangle int int int int
  | LabelBackground int int
  | LabelText string "fl option" int int

record image =
  shape_h :: nat
  shape_w :: nat
  pixels :: nat
  drawn :: "draw list"

text \<open>
  What the program calls and does not define: the image reader, the directory listing,
  the detector engine, OpenCV's suppression routine and the clock. \<open>cv2_imread\<close> is
  \<open>None\<close> for an unreadable file, \<open>listdir\<close> is \<open>None\<close> when \<^verbatim>\<open>os.listdir\<close>
  raises, \<open>engine\<close> is \<open>None\<close> when a CUDA or TensorRT call raises, and
  \<open>cv2_NMSBoxes\<close> is \<open>None\<close> when it raises \<^verbatim>\<open>cv2.error\<close>. The two clocks give the
  seconds measured around preprocessing and around the engine call of an image.
\<close>

record world =
  cv2_imread :: "string \<Rightarrow> image option"
  path_exists :: "string \<Rightarrow> bool"
  listdir :: "string \<Rightarrow> string list option"
  engine :: "image \<Rightarrow> fl list list list option"
  cv2_NMSBoxes :: "box list \<Rightarrow> fl list \<Rightarrow> fl \<Rightarrow> fl \<Rightarrow> nat list option"
  preprocess_seconds :: "string \<Rightarrow> real"
  inference_seconds :: "string \<Rightarrow> real"

text \<open>
  The attributes \<^verbatim>\<open>__init__\<close> fixes. \<open>input_shape2\<close> and \<open>input_shape3\<close> are
  \<^verbatim>\<open>input_shape[2]\<close> and \<^verbatim>\<open>input_shape[3]\<close>; \<open>score_th\<close> exists in the fp32 server
  only.
\<close>

record config =
  class_labels :: "string list"
  input_shape2 :: int
  input_shape3 :: int
  conf_th :: fl
  score_th :: fl
  nms_th :: fl
  show_labels :: bool
  show_conf :: bool

text \<open>
  The attributes the methods assign, and the files \<^verbatim>\<open>cv2.imwrite\<close> has written
  (oldest first). \<open>objects_by_class\<close> is the dictionary as the list of its items in
  insertion order. \<open>resized_img\<close> is \<^verbatim>\<open>(resized_img_w, resized_img_h)\<close>, absent until
  \<^verbatim>\<open>preprocess_image\<close> has run. Written files are kept apart from the files read.
\<close>

record inferencer =
  total_objects :: nat
  objects_by_class :: "(string \<times> nat) list"
  invalid_outputs :: nat
  total_time :: real
  inference_time :: real
  num_frames :: nat
  resized_img :: "(nat \<times> nat) option"
  written :: "(string \<times> image) list"

text \<open>\<^verbatim>\<open>{label: 0 for label in self.class_labels}\<close>: one item per distinct label, in
  the order of first occurrence.\<close>

definition zero_counts :: "string list \<Rightarrow> (string \<times> nat) list" where
  "zero_counts labels = map (\<lambda>label. (label, 0)) (rev (remdups (rev labels)))"

definition reset_counters :: "config \<Rightarrow> inferencer \<Rightarrow> inferencer" where
  "reset_counters cfg s =
     s\<lparr>total_objects := 0, objects_by_class := zero_counts (class_labels cfg),
       invalid_outputs := 0, total_time := 0, inference_time := 0, num_frames := 0\<rparr>"

section \<open>postprocess_image\<close>

record detection =
  det_class :: string
  det_confidence :: fl
  det_bbox :: box
  det_yolo_bbox :: "(real \<times> real \<times> real \<times> real) option"

text \<open>
  The class name of a surviving detection and the \<^verbatim>\<open>objects_by_class\<close> update.
  \<^verbatim>\<open>self.objects_by_class[class_name] += 1\<close> raises \<^verbatim>\<open>KeyError\<close> for a missing key.
\<close>

definition count_class :: "string list \<Rightarrow> nat \<Rightarrow> inferencer \<Rightarrow> py_error + string \<times> inferencer" where
  "count_class labels class_idx s =
     (if class_idx < length labels then
        let class_name = labels ! class_idx in
        (case map_of (objects_by_class s) class_name of
           None \<Rightarrow> Inl KeyError
         | Some n \<Rightarrow>
             Inr (class_name,
                  s\<lparr>objects_by_class := AList.update class_name (Suc n) (objects_by_class s)\<rparr>))
      else Inr (''Unknown'', s))"

definition make_detection :: "bool \<Rightarrow> string \<Rightarrow> candidate \<Rightarrow> detection" where
  "make_detection with_yolo class_name c =
     \<lparr>det_class = class_name, det_confidence = confidence c, det_bbox = bbox c,
      det_yolo_bbox = (if with_yolo then Some (yolo_box c) else None)\<rparr>"

definition draw_detection :: "bool \<Rightarrow> bool \<Rightarrow> string \<Rightarrow> candidate \<Rightarrow> image \<Rightarrow> image" where
  "draw_detection labels_shown conf_shown class_name c img =
     (case bbox c of (top_left_x, top_left_y, width_scaled, height_scaled) \<Rightarrow>
        let name_part = (if labels_shown then class_name else []);
            conf_part = (if conf_shown then Some (confidence c) else None);
            boxed = [Rectangle top_left_x top_left_y
                       (top_left_x + width_scaled) (top_left_y + height_scaled)];
            text = (if name_part = [] \<and> conf_part = None then []
                    else [LabelBackground top_left_x top_left_y,
                          LabelText name_part conf_part top_left_x (top_left_y - 5)])
        in img\<lparr>drawn := drawn img @ boxed @ text\<rparr>)"

text \<open>
  The loop \<^verbatim>\<open>for i in indices_nms\<close>. The counter is bumped before \<^verbatim>\<open>class_ids[i]\<close> is
  read, so an index out of range or a missing key leaves it bumped.
\<close>

fun draw_detections ::
  "string list \<Rightarrow> bool \<Rightarrow> bool \<Rightarrow> bool \<Rightarrow> candidate list \<Rightarrow> nat list \<Rightarrow>
   inferencer \<Rightarrow> image \<Rightarrow> detection list \<Rightarrow>
   py_error option \<times> inferencer \<times> image \<times> detection list" where
  "draw_detections labels labels_shown conf_shown with_yolo cands [] s img dets =
     (None, s, img, dets)"
| "draw_detections labels labels_shown conf_shown with_yolo cands (i # rest) s img dets =
     (let s1 = s\<lparr>total_objects := Suc (total_objects s)\<rparr> in
      if length cands \<le> i then (Some IndexError, s1, img, dets)
      else
        (case count_class labels (class_id (cands ! i)) s1 of
           Inl e \<Rightarrow> (Some e, s1, img, dets)
         | Inr (class_name, s2) \<Rightarrow>
             draw_detections labels labels_shown conf_shown with_yolo cands rest s2
               (draw_detection labels_shown conf_shown class_name (cands ! i) img)
               (dets @ [make_detection with_yolo class_name (cands ! i)])))"

definition nan_caption :: string where
  "nan_caption = ''No valid detections (NaN output)''"

text \<open>
  The block under \<^verbatim>\<open>if len(bboxes) > 0\<close>: OpenCV's routine is called on all boxes and
  confidences at once, with \<^verbatim>\<open>conf_th\<close> and \<^verbatim>\<open>nms_th\<close>; a \<^verbatim>\<open>cv2.error\<close> gives no
  indices.
\<close>

definition indices_nms :: "world \<Rightarrow> config \<Rightarrow> candidate list \<Rightarrow> nat list" where
  "indices_nms w cfg cands =
     (case cv2_NMSBoxes w (map bbox cands) (map confidence cands) (conf_th cfg) (nms_th cfg) of
        None \<Rightarrow> []
      | Some indices \<Rightarrow> indices)"

definition suppress_and_draw ::
  "world \<Rightarrow> config \<Rightarrow> bool \<Rightarrow> bool \<Rightarrow> bool \<Rightarrow> candidate list \<Rightarrow> inferencer \<Rightarrow> image \<Rightarrow>
   py_error option \<times> inferencer \<times> image \<times> detection list" where
  "suppress_and_draw w cfg labels_shown conf_shown with_yolo cands s img =
     (if cands \<noteq> [] then
        draw_detections (class_labels cfg) labels_shown conf_shown with_yolo cands
          (indices_nms w cfg cands) s img []
      else (None, s, img, []))"

text \<open>
  The body both servers share. It returns the value or the exception of the call and
  the state the call leaves. The fp32 server differs in the score threshold, in always
  drawing class name and confidence, and in keeping no normalised box.
\<close>

definition postprocess_core ::
  "world \<Rightarrow> config \<Rightarrow> fl \<Rightarrow> bool \<Rightarrow> bool \<Rightarrow> bool \<Rightarrow> inferencer \<Rightarrow> string \<Rightarrow>
   fl list list list \<Rightarrow> nat \<times> nat \<Rightarrow> string \<Rightarrow> (py_error + detection list) \<times> inferencer" where
  "postprocess_core w cfg score labels_shown conf_shown with_yolo s image_path yolov5_output
     original_dimensions output_path =
     (if list_ex (list_ex (list_ex isnan)) yolov5_output then
        let s1 = s\<lparr>invalid_outputs := Suc (invalid_outputs s)\<rparr> in
        (case cv2_imread w image_path of
           None \<Rightarrow> (Inl AttributeError, s1)
         | Some img \<Rightarrow>
             let captioned =
                   img\<lparr>drawn := drawn img @
                         [PutText nan_caption (shape_w img div 10) (shape_h img div 2)]\<rparr>
             in (Inr [], s1\<lparr>written := written s1 @ [(output_path, captioned)]\<rparr>))
      else
        (case cv2_imread w image_path of
           None \<Rightarrow> (Inr [], s)
         | Some img \<Rightarrow>
             (case resized_img s of
                None \<Rightarrow> (Inl AttributeError, s)
              | Some (resized_img_w, resized_img_h) \<Rightarrow>
                  if resized_img_w = 0 \<or> resized_img_h = 0 then (Inl ZeroDivisionError, s)
                  else
                    let height = fst original_dimensions;
                        width = snd original_dimensions;
                        scale_x = real width / real resized_img_w;
                        scale_y = real height / real resized_img_h
                    in
                    (case yolov5_output of
                       [] \<Rightarrow> (Inl IndexError, s)
                     | rows # _ \<Rightarrow>
                         (case decode_rows (conf_th cfg) score height width scale_x scale_y rows of
                            Inl e \<Rightarrow> (Inl e, s)
                          | Inr cands \<Rightarrow>
                              (case suppress_and_draw w cfg labels_shown conf_shown with_yolo
                                      cands s img of
                                 (Some e, s', img', detections) \<Rightarrow> (Inl e, s')
                               | (None, s', img', detections) \<Rightarrow>
                                   (Inr detections,
                                    s'\<lparr>written := written s' @ [(output_path, img')]\<rparr>)))))))"

definition postprocess_image ::
  "world \<Rightarrow> config \<Rightarrow> inferencer \<Rightarrow> string \<Rightarrow> fl list list list \<Rightarrow> nat \<times> nat \<Rightarrow> string \<Rightarrow>
   (py_error + detection list) \<times> inferencer" where
  "postprocess_image w cfg =
     postprocess_core w cfg (conf_th cfg) (show_labels cfg) (show_conf cfg) True"

definition postprocess_image_fp32 ::
  "world \<Rightarrow> config \<Rightarrow> inferencer \<Rightarrow> string \<Rightarrow> fl list list list \<Rightarrow> nat \<times> nat \<Rightarrow> string \<Rightarrow>
   (py_error + detection list) \<times> inferencer" where
  "postprocess_image_fp32 w cfg = postprocess_core w cfg (score_th cfg) True True False"

section \<open>generate_metrics\<close>

record metrics =
  m_num_frames :: nat
  m_total_time :: real
  m_inference_time :: real
  m_average_fps :: real
  m_average_inference_time :: real
  m_total_objects :: nat
  m_invalid_outputs :: nat
  m_objects_by_class :: "(string \<times> nat) list"

text \<open>
  \<open>Inr None\<close> is the empty dictionary returned when \<^verbatim>\<open>num_frames\<close> is zero. The
  division \<^verbatim>\<open>self.num_frames / self.total_time\<close> raises \<^verbatim>\<open>ZeroDivisionError\<close> for a
  zero divisor; the division by \<^verbatim>\<open>num_frames\<close> is under the guard.
\<close>

definition generate_metrics :: "inferencer \<Rightarrow> py_error + metrics option" where
  "generate_metrics s =
     (if num_frames s > 0 then
        if total_time s = 0 then Inl ZeroDivisionError
        else Inr (Some \<lparr>m_num_frames = num_frames s, m_total_time = total_time s,
                        m_inference_time = inference_time s,
                        m_average_fps = real (num_frames s) / total_time s,
                        m_average_inference_time = inference_time s / real (num_frames s),
                        m_total_objects = total_objects s,
                        m_invalid_outputs = invalid_outputs s,
                        m_objects_by_class = objects_by_class s\<rparr>)
      else Inr None)"

section \<open>Paths and the folder listing\<close>

text \<open>\<^verbatim>\<open>os.path.join\<close> and \<^verbatim>\<open>os.path.basename\<close> on POSIX paths.\<close>

definition path_join :: "string \<Rightarrow> string \<Rightarrow> string" where
  "path_join a b =
     (if b \<noteq> [] \<and> hd b = CHR ''/'' then b
      else if a = [] \<or> last a = CHR ''/'' then a @ b
      else a @ ''/'' @ b)"

definition basename :: "string \<Rightarrow> string" where
  "basename p = rev (takeWhile (\<lambda>c. c \<noteq> CHR ''/'') (rev p))"

text \<open>\<^verbatim>\<open>str.lower\<close> on the ASCII letters; other bytes are kept.\<close>

definition lower_char :: "char \<Rightarrow> char" where
  "lower_char c =
     (case map_of (zip ''ABCDEFGHIJKLMNOPQRSTUVWXYZ'' ''abcdefghijklmnopqrstuvwxyz'') c of
        None \<Rightarrow> c
      | Some d \<Rightarrow> d)"

definition lower :: "string \<Rightarrow> string" where
  "lower s = map lower_char s"

definition endswith :: "string \<Rightarrow> string \<Rightarrow> bool" where
  "endswith s ext = (length ext \<le> length s \<and> drop (length s - length ext) s = ext)"

definition image_extensions :: "string list" where
  "image_extensions = [''.jpg'', ''.jpeg'', ''.png'', ''.bmp'']"

text \<open>
  The names come in the order \<^verbatim>\<open>os.listdir\<close> returns them; the method filters and
  joins, and does not sort.
\<close>

definition get_images_from_folder :: "world \<Rightarrow> string \<Rightarrow> py_error + string list" where
  "get_images_from_folder w folder_path =
     (case listdir w folder_path of
        None \<Rightarrow> Inl OSError
      | Some names \<Rightarrow>
          Inr (map (path_join folder_path)
                 (filter (\<lambda>filename. list_ex (endswith (lower filename)) image_extensions) names)))"

section \<open>infer_single_image and infer_folder\<close>

text \<open>
  The dictionary a call returns for one image: \<open>None\<close> is an absent key. The error
  message is kept as the exception it is built from.
\<close>

record image_result =
  success :: bool
  input_path :: string
  output_path :: "string option"
  detections :: "detection list option"
  error :: "py_error option"

definition failed :: "string \<Rightarrow> py_error \<Rightarrow> image_result" where
  "failed image_path e =
     \<lparr>success = False, input_path = image_path, output_path = None, detections = None,
      error = Some e\<rparr>"

text \<open>
  \<^verbatim>\<open>cv2.imread\<close> gives \<^verbatim>\<open>None\<close> for an unreadable file and the method raises
  \<^verbatim>\<open>ValueError\<close>; \<^verbatim>\<open>cv2.resize\<close> raises for a target size that is not positive. The
  resized array has \<^verbatim>\<open>input_shape[3]\<close> rows and \<^verbatim>\<open>input_shape[2]\<close> columns, and the
  method stores its first two dimensions as \<^verbatim>\<open>resized_img_w, resized_img_h\<close>. The
  tensor handed to the engine is kept as the image it is computed from.
\<close>

definition preprocess_image ::
  "world \<Rightarrow> config \<Rightarrow> inferencer \<Rightarrow> string \<Rightarrow> (py_error + image \<times> nat \<times> nat) \<times> inferencer" where
  "preprocess_image w cfg s image_path =
     (case cv2_imread w image_path of
        None \<Rightarrow> (Inl ValueError, s)
      | Some img \<Rightarrow>
          if input_shape2 cfg \<le> 0 \<or> input_shape3 cfg \<le> 0 then (Inl CvError, s)
          else (Inr (img, shape_h img, shape_w img),
                s\<lparr>resized_img := Some (nat (input_shape3 cfg), nat (input_shape2 cfg))\<rparr>))"

text \<open>
  The \<^verbatim>\<open>try\<close> block of \<^verbatim>\<open>infer_single_image\<close>, which the fp32 server repeats inside
  the loop of its \<^verbatim>\<open>infer_folder\<close>: preprocess, engine call, postprocess, with the
  times added as the source adds them. Any exception becomes a failure dictionary; what
  was assigned before it stays assigned. \<open>post\<close> is the \<^verbatim>\<open>postprocess_image\<close> of the
  server at hand.
\<close>

definition run_pipeline ::
  "(inferencer \<Rightarrow> string \<Rightarrow> fl list list list \<Rightarrow> nat \<times> nat \<Rightarrow> string \<Rightarrow>
      (py_error + detection list) \<times> inferencer) \<Rightarrow>
   world \<Rightarrow> config \<Rightarrow> inferencer \<Rightarrow> string \<Rightarrow> string \<Rightarrow> image_result \<times> inferencer" where
  "run_pipeline post w cfg s image_path save_dir_path =
     (case preprocess_image w cfg s image_path of
        (Inl e, s1) \<Rightarrow> (failed image_path e, s1)
      | (Inr (input_data, original_dimensions), s1) \<Rightarrow>
          let s2 = s1\<lparr>total_time := total_time s1 + preprocess_seconds w image_path\<rparr> in
          (case engine w input_data of
             None \<Rightarrow> (failed image_path EngineError, s2)
           | Some output \<Rightarrow>
               let t = inference_seconds w image_path;
                   s3 = s2\<lparr>inference_time := inference_time s2 + t,
                           total_time := total_time s2 + t\<rparr>;
                   out = path_join save_dir_path (basename image_path)
               in
               (case post s3 image_path output original_dimensions out of
                  (Inl e, s4) \<Rightarrow> (failed image_path e, s4)
                | (Inr dets, s4) \<Rightarrow>
                    (\<lparr>success = True, input_path = image_path, output_path = Some out,
                      detections = Some dets, error = None\<rparr>, s4))))"

definition infer_single_image ::
  "world \<Rightarrow> config \<Rightarrow> inferencer \<Rightarrow> string \<Rightarrow> string \<Rightarrow> bool \<Rightarrow> image_result \<times> inferencer" where
  "infer_single_image w cfg s image_path save_dir_path reset =
     (let s0 = (if reset then (reset_counters cfg s)\<lparr>num_frames := 1\<rparr> else s)
      in run_pipeline (postprocess_image w cfg) w cfg s0 image_path save_dir_path)"

text \<open>The loop \<^verbatim>\<open>for idx, image_path in enumerate(image_paths)\<close>.\<close>

fun infer_images ::
  "(inferencer \<Rightarrow> string \<Rightarrow> image_result \<times> inferencer) \<Rightarrow> string list \<Rightarrow> inferencer \<Rightarrow>
   image_result list \<times> inferencer" where
  "infer_images body [] s = ([], s)"
| "infer_images body (image_path # rest) s =
     (case body s image_path of
        (result, s1) \<Rightarrow>
          (case infer_images body rest s1 of
             (results, s2) \<Rightarrow> (result # results, s2)))"

text \<open>
  What \<^verbatim>\<open>infer_folder\<close> returns: the failure dictionary for a folder without images,
  or success with the metrics and the list of per-image results.
\<close>

datatype folder_result =
    NoValidImages
  | Processed "metrics option" "image_result list"

fun folder_success :: "folder_result \<Rightarrow> bool" where
  "folder_success NoValidImages = False"
| "folder_success (Processed _ _) = True"

fun folder_results :: "folder_result \<Rightarrow> image_result list" where
  "folder_results NoValidImages = []"
| "folder_results (Processed _ results) = results"


definition infer_folder_with ::
  "(inferencer \<Rightarrow> string \<Rightarrow> image_result \<times> inferencer) \<Rightarrow> world \<Rightarrow> config \<Rightarrow> inferencer \<Rightarrow>
   string \<Rightarrow> (py_error + folder_result) \<times> inferencer" where
  "infer_folder_with body w cfg s folder_path =
     (let s0 = reset_counters cfg s in
      case get_images_from_folder w folder_path of
        Inl e \<Rightarrow> (Inl e, s0)
      | Inr image_paths \<Rightarrow>
          let s1 = s0\<lparr>num_frames := length image_paths\<rparr> in
          if image_paths = [] then (Inr NoValidImages, s1)
          else
            (case infer_images body image_paths s1 of
               (results, s2) \<Rightarrow>
                 (case generate_metrics s2 of
                    Inl e \<Rightarrow> (Inl e, s2)
                  | Inr m \<Rightarrow> (Inr (Processed m results), s2))))"

text \<open>
  \<^verbatim>\<open>infer_folder\<close> of \<^verbatim>\<open>detect_trt_server.py\<close> calls \<^verbatim>\<open>infer_single_image\<close> with
  \<^verbatim>\<open>reset_counters=False\<close>; that of \<^verbatim>\<open>detect_trt_fp32_server.py\<close> has the same steps
  in its loop, with its own \<^verbatim>\<open>postprocess_image\<close>. The text log the fp32 server writes
  afterwards is not modelled.
\<close>

definition infer_folder ::
  "world \<Rightarrow> config \<Rightarrow> inferencer \<Rightarrow> string \<Rightarrow> string \<Rightarrow> (py_error + folder_result) \<times> inferencer" where
  "infer_folder w cfg s folder_path save_dir_path =
     infer_folder_with (\<lambda>s' image_path. infer_single_image w cfg s' image_path save_dir_path False)
       w cfg s folder_path"


section \<open>The detection log of YOLOv5Server\<close>

text \<open>
  A row of the CSV file is the list of its cells, a cell the value handed to
  \<^verbatim>\<open>csv.writer\<close>. The file is \<open>None\<close> while it does not exist, else its rows from
  the first to the last.
\<close>

datatype cell = CStr string | CFloat fl | CReal real | CInt int

definition csv_header :: "cell list" where
  "csv_header =
     [CStr ''image_file'', CStr ''class'', CStr ''confidence'', CStr ''x'', CStr ''y'', CStr ''width'',
      CStr ''height'', CStr ''center_x_norm'', CStr ''center_y_norm'', CStr ''width_norm'',
      CStr ''height_norm'']"

record server =
  inferencer_state :: inferencer
  output_dir :: string
  csv_file :: "cell list list option"

text \<open>Mode \<^verbatim>\<open>'w'\<close> under \<^verbatim>\<open>if not os.path.exists(self.csv_path)\<close>.\<close>

definition init_csv_file :: "server \<Rightarrow> server" where
  "init_csv_file srv =
     (case csv_file srv of
        None \<Rightarrow> srv\<lparr>csv_file := Some [csv_header]\<rparr>
      | Some rows \<Rightarrow> srv)"

text \<open>
  The row of one detection; \<^verbatim>\<open>detection['yolo_bbox']\<close> raises \<^verbatim>\<open>KeyError\<close> when the
  key is absent.
\<close>

definition detection_row :: "string \<Rightarrow> detection \<Rightarrow> py_error + cell list" where
  "detection_row image_filename d =
     (case det_yolo_bbox d of
        None \<Rightarrow> Inl KeyError
      | Some (cxn, cyn, wn, hn) \<Rightarrow>
          (case det_bbox d of (x, y, bw, bh) \<Rightarrow>
             Inr [CStr image_filename, CStr (det_class d), CFloat (det_confidence d),
                  CInt x, CInt y, CInt bw, CInt bh, CReal cxn, CReal cyn, CReal wn, CReal hn]))"

text \<open>The loop \<^verbatim>\<open>for detection in detections\<close>: rows written until one raises.\<close>

fun detection_rows :: "string \<Rightarrow> detection list \<Rightarrow> cell list list \<times> py_error option" where
  "detection_rows image_filename [] = ([], None)"
| "detection_rows image_filename (d # ds) =
     (case detection_row image_filename d of
        Inl e \<Rightarrow> ([], Some e)
      | Inr row \<Rightarrow>
          (case detection_rows image_filename ds of
             (rows, e) \<Rightarrow> (row # rows, e)))"

text \<open>
  Mode \<^verbatim>\<open>'a'\<close>: the rows go after what the file holds, and an absent file is created.
  The result carries the exception, if any, next to the server.
\<close>

definition write_detections_to_csv ::
  "server \<Rightarrow> string \<Rightarrow> detection list \<Rightarrow> py_error option \<times> server" where
  "write_detections_to_csv srv image_path dets =
     (if dets = [] then (None, srv)
      else
        (case detection_rows (basename image_path) dets of
           (rows, e) \<Rightarrow>
             (e, srv\<lparr>csv_file := Some ((case csv_file srv of None \<Rightarrow> [] | Some old \<Rightarrow> old) @ rows)\<rparr>)))"

text \<open>
  \<^verbatim>\<open>_process_single_image\<close>: the outer \<^verbatim>\<open>try\<close> swallows every exception, so the
  method returns the server it leaves.
\<close>

definition process_single_image :: "world \<Rightarrow> config \<Rightarrow> server \<Rightarrow> string \<Rightarrow> server" where
  "process_single_image w cfg srv image_path =
     (if \<not> path_exists w image_path then srv
      else
        (case infer_single_image w cfg (inferencer_state srv) image_path (output_dir srv) True of
           (result, s') \<Rightarrow>
             let srv1 = srv\<lparr>inferencer_state := s'\<rparr> in
             (case detections result of
                Some dets \<Rightarrow>
                  if success result then snd (write_detections_to_csv srv1 image_path dets)
                  else srv1
              | None \<Rightarrow> srv1)))"

text \<open>
  The loop \<^verbatim>\<open>for img_result in result["results"]\<close> of \<^verbatim>\<open>_process_folder\<close>; an
  exception in a write ends it.
\<close>

fun write_results :: "server \<Rightarrow> image_result list \<Rightarrow> server" where
  "write_results srv [] = srv"
| "write_results srv (img_result # rest) =
     (case detections img_result of
        Some dets \<Rightarrow>
          if success img_result then
            (case write_detections_to_csv srv (input_path img_result) dets of
               (None, srv1) \<Rightarrow> write_results srv1 rest
             | (Some e, srv1) \<Rightarrow> srv1)
          else write_results srv rest
      | None \<Rightarrow> write_results srv rest)"

definition process_folder :: "world \<Rightarrow> config \<Rightarrow> server \<Rightarrow> string \<Rightarrow> server" where
  "process_folder w cfg srv folder_path =
     (if \<not> path_exists w folder_path then srv
      else
        (case infer_folder w cfg (inferencer_state srv) folder_path (output_dir srv) of
           (Inl e, s') \<Rightarrow> srv\<lparr>inferencer_state := s'\<rparr>
         | (Inr result, s') \<Rightarrow>
             let srv1 = srv\<lparr>inferencer_state := s'\<rparr> in
             if folder_success result then write_results srv1 (folder_results result)
             else srv1))"

section \<open>The suppressor\<close>

text \<open>
  Modelled from the spec: \<^verbatim>\<open>cv2.dnn.NMSBoxes\<close>, which \<^verbatim>\<open>postprocess_image\<close> calls, is
  OpenCV's and not among the sources. The definitions below follow section 4.2 of the
  specification: greedy non-maximum suppression over all candidates, highest confidence
  first, ties by the lower index, a box suppressed when its IoU with a box retained
  before it exceeds the threshold. IoU is intersection over union of the two boxes, as
  the glossary has it. The score threshold the call passes third is no part of that
  contract and plays no role here.
\<close>

definition box_area :: "box \<Rightarrow> int" where
  "box_area b = (case b of (x, y, w, h) \<Rightarrow> w * h)"

definition box_intersection :: "box \<Rightarrow> box \<Rightarrow> int" where
  "box_intersection a b =
     (case a of (ax, ay, aw, ah) \<Rightarrow>
      case b of (bx, by, bw, bh) \<Rightarrow>
        max 0 (min (ax + aw) (bx + bw) - max ax bx) *
        max 0 (min (ay + ah) (by + bh) - max ay by))"

definition iou :: "box \<Rightarrow> box \<Rightarrow> real" where
  "iou a b =
     (let inter = box_intersection a b;
          union = box_area a + box_area b - inter
      in if union = 0 then 0 else real_of_int inter / real_of_int union)"

text \<open>
  The key that sorts confidences from the highest to the lowest; the sort is stable, so
  equal confidences keep the order of their indices.
\<close>

fun desc_key :: "fl \<Rightarrow> nat \<times> real" where
  "desc_key PInf = (0, 0)"
| "desc_key (Fin r) = (1, - r)"
| "desc_key NInf = (2, 0)"
| "desc_key NaN = (3, 0)"

definition nms_order :: "fl list \<Rightarrow> nat list" where
  "nms_order confidences =
     sort_key (\<lambda>i. desc_key (confidences ! i)) [0..<length confidences]"

definition overlaps :: "box list \<Rightarrow> fl \<Rightarrow> nat \<Rightarrow> nat \<Rightarrow> bool" where
  "overlaps bboxes nms_threshold i k = fl_lt nms_threshold (Fin (iou (bboxes ! i) (bboxes ! k)))"

fun greedy_keep :: "box list \<Rightarrow> fl \<Rightarrow> nat list \<Rightarrow> nat list \<Rightarrow> nat list" where
  "greedy_keep bboxes nms_threshold kept [] = kept"
| "greedy_keep bboxes nms_threshold kept (i # rest) =
     (if list_ex (overlaps bboxes nms_threshold i) kept
      then greedy_keep bboxes nms_threshold kept rest
      else greedy_keep bboxes nms_threshold (kept @ [i]) rest)"

definition NMSBoxes :: "box list \<Rightarrow> fl list \<Rightarrow> fl \<Rightarrow> fl \<Rightarrow> nat list option" where
  "NMSBoxes bboxes confidences score_threshold nms_threshold =
     Some (greedy_keep bboxes nms_threshold [] (nms_order confidences))"

section \<open>Observations on the counters\<close>

text \<open>\<^verbatim>\<open>sum(self.objects_by_class.values())\<close>: what the per-class counts add up to.\<close>

definition class_count_total :: "inferencer \<Rightarrow> nat" where
  "class_count_total s = sum_list (map snd (objects_by_class s))"

text \<open>The attributes the loop over the surviving detections leaves alone.\<close>

definition other_fields ::
  "inferencer \<Rightarrow> nat \<times> real \<times> real \<times> nat \<times> (nat \<times> nat) option \<times> (string \<times> image) list" where
  "other_fields s =
     (invalid_outputs s, total_time s, inference_time s, num_frames s, resized_img s, written s)"


text \<open>
  The rows \<^verbatim>\<open>_process_folder\<close> writes for one per-image result: those of its
  detections when it succeeded, none otherwise.
\<close>

definition result_rows :: "image_result \<Rightarrow> cell list list" where
  "result_rows r =
     (case detections r of
        Some dets \<Rightarrow> if success r then fst (detection_rows (basename (input_path r)) dets) else []
      | None \<Rightarrow> [])"

section \<open>The inferencer after construction, and inputs for the examples\<close>

text \<open>\<^verbatim>\<open>__init__\<close> ends with \<^verbatim>\<open>reset_counters\<close>; no image has been resized or written yet.\<close>

definition initial_inferencer :: "config \<Rightarrow> inferencer" where
  "initial_inferencer cfg =
     \<lparr>total_objects = 0, objects_by_class = zero_counts (class_labels cfg), invalid_outputs = 0,
      total_time = 0, inference_time = 0, num_frames = 0, resized_img = None, written = []\<rparr>"

text \<open>
  Concrete inputs on which the theorems below are run: two labels (or one, which leaves
  class 1 out of the table), the default thresholds, a 640 by 480 image, and a tensor of two rows of class 1 with confidences
  0.9 and 0.8 whose boxes in the image are 17 by 30 and three pixels apart, which makes
  their IoU 0.7; a row with an infinite centre and a row with a NaN confidence. The folder \<open>in\<close> lists three images, the second unreadable, and a
  text file; the folder \<open>mixed\<close> lists two images, the later name first.
\<close>

definition demo_config :: config where
  "demo_config =
     \<lparr>class_labels = [''person'', ''car''], input_shape2 = 640, input_shape3 = 640,
      conf_th = Fin (1 / 4), score_th = Fin (1 / 4), nms_th = Fin (45 / 100),
      show_labels = True, show_conf = True\<rparr>"

definition demo_one_label_config :: config where
  "demo_one_label_config = demo_config\<lparr>class_labels := [''person'']\<rparr>"

definition demo_image :: image where
  "demo_image = \<lparr>shape_h = 480, shape_w = 640, pixels = 0, drawn = []\<rparr>"

definition demo_row1 :: "fl list" where
  "demo_row1 = [Fin (217 / 2), Fin 100, Fin 17, Fin 40, Fin (9 / 10), Fin (1 / 10), Fin (8 / 10)]"

definition demo_inf_row :: "fl list" where
  "demo_inf_row = [PInf, Fin 100, Fin 17, Fin 40, Fin (9 / 10), Fin (1 / 10), Fin (8 / 10)]"

definition demo_nan_row :: "fl list" where
  "demo_nan_row = [Fin (217 / 2), Fin 100, Fin 17, Fin 40, NaN, Fin (1 / 10), Fin (8 / 10)]"

definition demo_row2 :: "fl list" where
  "demo_row2 = [Fin (223 / 2), Fin 100, Fin 17, Fin 40, Fin (8 / 10), Fin (1 / 10), Fin (7 / 10)]"

definition demo_tensor :: "fl list list list" where
  "demo_tensor = [[demo_row1, demo_row2]]"

definition demo_world :: world where
  "demo_world =
     \<lparr>cv2_imread = (\<lambda>p. if p = ''in/b.jpg'' then None else Some demo_image),
      path_exists = (\<lambda>p. True),
      listdir = (\<lambda>d. if d = ''in'' then Some [''a.jpg'', ''b.jpg'', ''notes.txt'', ''c.PNG'']
                      else if d = ''mixed'' then Some [''z.jpg'', ''a.jpg'']
                      else None),
      engine = (\<lambda>img. Some demo_tensor),
      cv2_NMSBoxes = NMSBoxes,
      preprocess_seconds = (\<lambda>p. 1 / 100),
      inference_seconds = (\<lambda>p. 2 / 100)\<rparr>"

definition demo_inferencer :: inferencer where
  "demo_inferencer = (initial_inferencer demo_config)\<lparr>resized_img := Some (640, 640)\<rparr>"

definition demo_server :: server where
  "demo_server =
     \<lparr>inferencer_state = initial_inferencer demo_config, output_dir = ''out'', csv_file = None\<rparr>"

section \<open>Facts about the decoder loop\<close>

lemma argmax_from_bound: "mi < i \<Longrightarrow> argmax_from mp mi i xs < i + length xs"
proof (induction xs arbitrary: mp mi i)
  case Nil
  then show ?case by simp
next
  case (Cons x xs)
  have a: "argmax_from x i (Suc i) xs < Suc i + length xs"
    by (rule Cons.IH) simp
  have b: "argmax_from mp mi (Suc i) xs < Suc i + length xs"
    by (rule Cons.IH) (use Cons.prems in simp)
  show ?case using a b Cons.prems by simp
qed

lemma argmax_bound: "xs \<noteq> [] \<Longrightarrow> argmax xs < length xs"
  using argmax_from_bound[of 0 1] by (cases xs) auto

lemma scaled_box_inside:
  "scaled_box height width scale_x scale_y cx cy w h = (x, y, ws, hs) \<Longrightarrow>
   0 \<le> x \<and> 0 \<le> y \<and> x + ws \<le> int width \<and> y + hs \<le> int height"
  by (auto simp: scaled_box_def Let_def)

lemma decode_row_SomeD:
  assumes "decode_row cth sth height width scale_x scale_y detect = Inr (Some c)"
  shows "\<not> list_ex isnan detect" "5 < length detect" "confidence c = detect ! 4"
    "\<not> fl_lt (detect ! 4) cth" "class_id c = argmax (drop 5 detect)"
    "\<not> fl_lt (detect ! (5 + class_id c)) sth"
    "list_all isfinite [detect ! 0, detect ! 1, detect ! 2, detect ! 3]"
    "bbox c = scaled_box height width scale_x scale_y (float_val (detect ! 0))
       (float_val (detect ! 1)) (float_val (detect ! 2)) (float_val (detect ! 3))"
    "0 < fst (snd (snd (bbox c)))" "0 < snd (snd (snd (bbox c)))"
  using assms argmax_bound[of "drop 5 detect"]
  by (auto simp: decode_row_def Let_def split: if_splits)

lemma decode_rows_origin:
  "decode_rows cth sth height width scale_x scale_y rows = Inr cands \<Longrightarrow>
   c \<in> set cands \<Longrightarrow>
   \<exists>detect \<in> set rows. decode_row cth sth height width scale_x scale_y detect = Inr (Some c)"
  by (induction rows arbitrary: cands) (auto split: sum.splits option.splits)



lemma draw_detections_origin:
  "draw_detections L a b y cands idxs s img dets = (err, s', img', dets') \<Longrightarrow>
   d \<in> set dets' \<Longrightarrow>
   d \<in> set dets \<or> (\<exists>c \<in> set cands. \<exists>name. d = make_detection y name c)"
proof (induction idxs arbitrary: s img dets)
  case Nil
  then show ?case by simp
next
  case (Cons i idxs)
  show ?case
  proof (cases "length cands \<le> i")
    case True
    with Cons.prems show ?thesis by (simp add: Let_def)
  next
    case False
    show ?thesis
    proof (cases "count_class L (class_id (cands ! i)) (s\<lparr>total_objects := Suc (total_objects s)\<rparr>)")
      case (Inl e)
      with False Cons.prems show ?thesis by (simp add: Let_def)
    next
      case (Inr r)
      obtain name s2 where r: "r = (name, s2)" by (cases r)
      from Cons.prems(1) False Inr r
      have "draw_detections L a b y cands idxs s2 (draw_detection a b name (cands ! i) img)
              (dets @ [make_detection y name (cands ! i)]) = (err, s', img', dets')"
        by (simp add: Let_def)
      from Cons.IH[OF this Cons.prems(2)] False show ?thesis
        by (auto simp: not_le)
    qed
  qed
qed


lemma fl_ge_refl: "\<not> isnan a \<Longrightarrow> fl_ge a a"
  by (cases a) (simp_all add: fl_ge_def fl_le_def)


lemma fl_ge_iff_not_lt: "\<not> isnan a \<Longrightarrow> \<not> isnan b \<Longrightarrow> fl_ge a b \<longleftrightarrow> \<not> fl_lt a b"
  by (simp add: fl_ge_def fl_le_def)


section \<open>Facts about the counters\<close>

lemma sum_counts_update:
  "map_of al k = Some n \<Longrightarrow>
   sum_list (map snd (AList.update k (Suc n) al)) = Suc (sum_list (map snd al))"
  by (induction al) (auto split: if_splits)

lemma count_class_Inr:
  assumes "count_class L k s = Inr (name, s2)"
  shows "total_objects s2 = total_objects s"
    and "class_count_total s2 = class_count_total s + (if k < length L then 1 else 0)"
    and "name = (if k < length L then L ! k else ''Unknown'')"
  using assms
  by (auto simp: count_class_def class_count_total_def Let_def sum_counts_update
      split: if_splits option.splits)

lemma count_class_Inl:
  "count_class L k s = Inl e \<Longrightarrow> k < length L"
  by (auto simp: count_class_def Let_def split: if_splits option.splits)

lemma draw_detections_counts:
  "draw_detections L a b y cands idxs s img dets = (None, s', img', dets') \<Longrightarrow>
   total_objects s' = total_objects s + length idxs \<and>
   class_count_total s' =
     class_count_total s + length (filter (\<lambda>i. class_id (cands ! i) < length L) idxs) \<and>
   map det_class dets' =
     map det_class dets @
     map (\<lambda>i. if class_id (cands ! i) < length L then L ! class_id (cands ! i) else ''Unknown'') idxs"
proof (induction idxs arbitrary: s img dets)
  case Nil
  then show ?case by simp
next
  case (Cons i idxs)
  let ?s1 = "s\<lparr>total_objects := Suc (total_objects s)\<rparr>"
  from Cons.prems have le: "\<not> length cands \<le> i"
    by (auto simp: Let_def split: if_splits)
  from Cons.prems le obtain name s2 where
    cc: "count_class L (class_id (cands ! i)) ?s1 = Inr (name, s2)"
    by (cases "count_class L (class_id (cands ! i)) ?s1") (auto simp: Let_def)
  from Cons.prems le cc
  have rec: "draw_detections L a b y cands idxs s2 (draw_detection a b name (cands ! i) img)
              (dets @ [make_detection y name (cands ! i)]) = (None, s', img', dets')"
    by (simp add: Let_def)
  note ih = Cons.IH[OF rec]
  note c = count_class_Inr[OF cc]
  have s1: "class_count_total ?s1 = class_count_total s"
    by (simp add: class_count_total_def)
  show ?case
    using ih c s1 by (auto simp: make_detection_def)
qed

lemma draw_detections_gap:
  "draw_detections L a b y cands idxs s img dets = (err, s', img', dets') \<Longrightarrow>
   class_count_total s' + total_objects s \<le> total_objects s' + class_count_total s"
proof (induction idxs arbitrary: s img dets)
  case Nil
  then show ?case by simp
next
  case (Cons i idxs)
  let ?s1 = "s\<lparr>total_objects := Suc (total_objects s)\<rparr>"
  have s1: "class_count_total ?s1 = class_count_total s"
    by (simp add: class_count_total_def)
  show ?case
  proof (cases "length cands \<le> i")
    case True
    with Cons.prems s1 show ?thesis by (auto simp: Let_def)
  next
    case False
    show ?thesis
    proof (cases "count_class L (class_id (cands ! i)) ?s1")
      case (Inl e)
      with False Cons.prems s1 show ?thesis by (auto simp: Let_def)
    next
      case (Inr r)
      obtain name s2 where r: "r = (name, s2)" by (cases r)
      from Cons.prems False Inr r
      have rec: "draw_detections L a b y cands idxs s2 (draw_detection a b name (cands ! i) img)
              (dets @ [make_detection y name (cands ! i)]) = (err, s', img', dets')"
        by (simp add: Let_def)
      note ih = Cons.IH[OF rec]
      note c = count_class_Inr[OF Inr[unfolded r]]
      show ?thesis using ih c s1 by (auto split: if_splits)
    qed
  qed
qed

lemma suppress_and_draw_gap:
  "suppress_and_draw w cfg a b y cands s img = (err, s', img', dets') \<Longrightarrow>
   class_count_total s' + total_objects s \<le> total_objects s' + class_count_total s"
  using draw_detections_gap by (auto simp: suppress_and_draw_def split: if_splits)

lemma class_count_total_upd [simp]:
  "class_count_total (s\<lparr>written := x\<rparr>) = class_count_total s"
  "class_count_total (s\<lparr>invalid_outputs := n\<rparr>) = class_count_total s"
  "class_count_total (s\<lparr>total_time := r\<rparr>) = class_count_total s"
  "class_count_total (s\<lparr>inference_time := r\<rparr>) = class_count_total s"
  "class_count_total (s\<lparr>num_frames := n\<rparr>) = class_count_total s"
  "class_count_total (s\<lparr>resized_img := z\<rparr>) = class_count_total s"
  "class_count_total (s\<lparr>total_objects := n\<rparr>) = class_count_total s"
  by (simp_all add: class_count_total_def)

lemma postprocess_core_gap:
  assumes "postprocess_core w cfg score a b y s p t dims out = (r, s')"
  shows "class_count_total s' + total_objects s \<le> total_objects s' + class_count_total s"
proof (cases "list_ex (list_ex (list_ex isnan)) t")
  case True
  with assms show ?thesis
    by (auto simp: postprocess_core_def Let_def split: option.splits)
next
  case False
  show ?thesis
  proof (cases "\<exists>img rw rh rows rest cands. cv2_imread w p = Some img \<and> resized_img s = Some (rw, rh)
     \<and> \<not> (rw = 0 \<or> rh = 0) \<and> t = rows # rest \<and>
     decode_rows (conf_th cfg) score (fst dims) (snd dims)
             (real (snd dims) / real rw) (real (fst dims) / real rh) rows = Inr cands")
    case True
    then obtain img rw rh rows rest cands where h: "cv2_imread w p = Some img"
      "resized_img s = Some (rw, rh)" "\<not> (rw = 0 \<or> rh = 0)" "t = rows # rest"
      "decode_rows (conf_th cfg) score (fst dims) (snd dims)
             (real (snd dims) / real rw) (real (fst dims) / real rh) rows = Inr cands"
      by blast
    obtain err s'' img' dets where sd:
      "suppress_and_draw w cfg a b y cands s img = (err, s'', img', dets)"
      by (cases "suppress_and_draw w cfg a b y cands s img") auto
    from assms False h sd have "s' = s'' \<or> s' = s''\<lparr>written := written s'' @ [(out, img')]\<rparr>"
      by (cases err) (auto simp: postprocess_core_def Let_def)
    with suppress_and_draw_gap[OF sd] show ?thesis by auto
  next
    case F2: False
    with assms False have "s' = s"
      by (auto simp: postprocess_core_def Let_def split: option.splits list.splits sum.splits if_splits)
    then show ?thesis by simp
  qed
qed


lemma filter_by_class_name:
  "length (filter (\<lambda>d. det_class d \<noteq> u) dets) = length (filter (\<lambda>n. n \<noteq> u) (map det_class dets))"
  by (induction dets) auto

lemma known_names_in_range:
  assumes "''Unknown'' \<notin> set L"
  shows "length (filter (\<lambda>n. n \<noteq> ''Unknown'')
           (map (\<lambda>i. if class_id (cands ! i) < length L then L ! class_id (cands ! i)
                       else ''Unknown'') idxs)) =
         length (filter (\<lambda>i. class_id (cands ! i) < length L) idxs)"
proof -
  have "\<And>k. k < length L \<Longrightarrow> L ! k \<noteq> ''Unknown''"
    using assms nth_mem by metis
  then show ?thesis by (induction idxs) auto
qed

lemma postprocess_core_counts:
  assumes "postprocess_core w cfg score a b y s p t dims out = (Inr dets, s')"
  shows "total_objects s' = total_objects s + length dets"
    and "''Unknown'' \<notin> set (class_labels cfg) \<Longrightarrow>
         class_count_total s' =
           class_count_total s + length (filter (\<lambda>d. det_class d \<noteq> ''Unknown'') dets)"
proof -
  have "total_objects s' = total_objects s + length dets \<and>
    (''Unknown'' \<notin> set (class_labels cfg) \<longrightarrow>
         class_count_total s' =
           class_count_total s + length (filter (\<lambda>d. det_class d \<noteq> ''Unknown'') dets))"
  proof (cases "list_ex (list_ex (list_ex isnan)) t")
    case True
    with assms show ?thesis
      by (auto simp: postprocess_core_def Let_def split: option.splits)
  next
    case False
    show ?thesis
    proof (cases "cv2_imread w p")
      case None
      with assms False show ?thesis by (auto simp: postprocess_core_def)
    next
      case (Some img)
      from assms False Some obtain rw rh where rs: "resized_img s = Some (rw, rh)"
        by (auto simp: postprocess_core_def Let_def split: option.splits)
      from assms False Some rs have nz: "\<not> (rw = 0 \<or> rh = 0)"
        by (auto simp: postprocess_core_def Let_def split: if_splits)
      from assms False Some rs nz obtain rows rest where t: "t = rows # rest"
        by (cases t) (auto simp: postprocess_core_def Let_def)
      let ?dec = "decode_rows (conf_th cfg) score (fst dims) (snd dims)
             (real (snd dims) / real rw) (real (fst dims) / real rh) rows"
      from assms False Some rs nz t obtain cands where dec: "?dec = Inr cands"
        by (cases ?dec) (auto simp: postprocess_core_def Let_def)
      from assms False Some rs nz t dec obtain s'' img' where
        sd: "suppress_and_draw w cfg a b y cands s img = (None, s'', img', dets)" (is "?sd = _")
        and s': "s' = s''\<lparr>written := written s'' @ [(out, img')]\<rparr>"
        by (cases ?sd) (auto simp: postprocess_core_def Let_def split: option.splits)
      show ?thesis
      proof (cases "cands = []")
        case True
        with sd s' show ?thesis by (auto simp: suppress_and_draw_def)
      next
        case F: False
        with sd have dd: "draw_detections (class_labels cfg) a b y cands (indices_nms w cfg cands)
            s img [] = (None, s'', img', dets)"
          by (simp add: suppress_and_draw_def)
        note c = draw_detections_counts[OF dd]
        let ?idxs = "indices_nms w cfg cands"
        let ?name = "\<lambda>i. if class_id (cands ! i) < length (class_labels cfg)
              then class_labels cfg ! class_id (cands ! i) else ''Unknown''"
        have names: "map det_class dets = map ?name ?idxs"
          using c by simp
        have "length (map det_class dets) = length (map ?name ?idxs)"
          by (simp only: names)
        then have len: "length dets = length ?idxs" by simp
        have tot: "total_objects s' = total_objects s + length dets"
          using c len s' by simp
        have cnt: "class_count_total s' =
            class_count_total s + length (filter (\<lambda>i. class_id (cands ! i) < length (class_labels cfg)) ?idxs)"
          using c s' by simp
        have "''Unknown'' \<notin> set (class_labels cfg) \<longrightarrow>
          length (filter (\<lambda>d. det_class d \<noteq> ''Unknown'') dets) =
          length (filter (\<lambda>i. class_id (cands ! i) < length (class_labels cfg)) ?idxs)"
        proof
          assume u: "''Unknown'' \<notin> set (class_labels cfg)"
          have "length (filter (\<lambda>d. det_class d \<noteq> ''Unknown'') dets) =
            length (filter (\<lambda>n. n \<noteq> ''Unknown'') (map ?name ?idxs))"
            by (simp only: filter_by_class_name names)
          also have "\<dots> = length (filter (\<lambda>i. class_id (cands ! i) < length (class_labels cfg)) ?idxs)"
            by (rule known_names_in_range[OF u])
          finally show "length (filter (\<lambda>d. det_class d \<noteq> ''Unknown'') dets) =
            length (filter (\<lambda>i. class_id (cands ! i) < length (class_labels cfg)) ?idxs)" .
        qed
        with tot cnt show ?thesis by simp
      qed
    qed
  qed
  then show "total_objects s' = total_objects s + length dets"
    and "''Unknown'' \<notin> set (class_labels cfg) \<Longrightarrow>
         class_count_total s' =
           class_count_total s + length (filter (\<lambda>d. det_class d \<noteq> ''Unknown'') dets)"
    by simp_all
qed

lemma length_filter_eq_iff:
  "length (filter P xs) = length xs \<longleftrightarrow> (\<forall>x \<in> set xs. P x)"
proof (induction xs)
  case Nil
  then show ?case by simp
next
  case (Cons x xs)
  have le: "length (filter P xs) \<le> length xs" by (rule length_filter_le)
  show ?case
  proof (cases "P x")
    case True
    with Cons show ?thesis by simp
  next
    case False
    with le show ?thesis by (simp del: length_filter_le)
  qed
qed

section \<open>The pipeline does not read the counters\<close>








lemma run_pipeline_cases:
  assumes "run_pipeline post w cfg s p sd = (r, s')"
  obtains
    (unreadable) "cv2_imread w p = None" "r = failed p ValueError" "s' = s"
  | (resize) img where "cv2_imread w p = Some img" "input_shape2 cfg \<le> 0 \<or> input_shape3 cfg \<le> 0"
      "r = failed p CvError" "s' = s"
  | (engine) img where "cv2_imread w p = Some img" "\<not> (input_shape2 cfg \<le> 0 \<or> input_shape3 cfg \<le> 0)"
      "engine w img = None" "r = failed p EngineError"
      "s' = s\<lparr>resized_img := Some (nat (input_shape3 cfg), nat (input_shape2 cfg)),
             total_time := total_time s + preprocess_seconds w p\<rparr>"
  | (post) img outp pr s4 where "cv2_imread w p = Some img"
      "\<not> (input_shape2 cfg \<le> 0 \<or> input_shape3 cfg \<le> 0)"
      "engine w img = Some outp"
      "post (s\<lparr>resized_img := Some (nat (input_shape3 cfg), nat (input_shape2 cfg)),
             inference_time := inference_time s + inference_seconds w p,
             total_time := total_time s + preprocess_seconds w p + inference_seconds w p\<rparr>)
          p outp (shape_h img, shape_w img) (path_join sd (basename p)) = (pr, s4)"
      "s' = s4"
      "r = (case pr of Inl e \<Rightarrow> failed p e
            | Inr dets \<Rightarrow> \<lparr>success = True, input_path = p,
                output_path = Some (path_join sd (basename p)), detections = Some dets,
                error = None\<rparr>)"
proof (cases "cv2_imread w p")
  case None
  with assms show ?thesis
    by (intro unreadable) (simp_all add: run_pipeline_def preprocess_image_def)
next
  case (Some img)
  show ?thesis
  proof (cases "input_shape2 cfg \<le> 0 \<or> input_shape3 cfg \<le> 0")
    case True
    with assms Some show ?thesis
      by (intro resize[of img]) (auto simp: run_pipeline_def preprocess_image_def)
  next
    case False
    show ?thesis
    proof (cases "engine w img")
      case None
      with assms Some False show ?thesis
        by (intro engine[of img]) (auto simp: run_pipeline_def preprocess_image_def Let_def)
    next
      case (Some outp)
      let ?s3 = "s\<lparr>resized_img := Some (nat (input_shape3 cfg), nat (input_shape2 cfg)),
             inference_time := inference_time s + inference_seconds w p,
             total_time := total_time s + preprocess_seconds w p + inference_seconds w p\<rparr>"
      obtain pr s4 where ps: "post ?s3 p outp (shape_h img, shape_w img)
          (path_join sd (basename p)) = (pr, s4)"
        by (cases "post ?s3 p outp (shape_h img, shape_w img) (path_join sd (basename p))") auto
      have s3: "s\<lparr>resized_img := Some (nat (input_shape3 cfg), nat (input_shape2 cfg)),
                 total_time := total_time s + preprocess_seconds w p,
                 inference_time := inference_time s + inference_seconds w p,
                 total_time := total_time s + preprocess_seconds w p + inference_seconds w p\<rparr> = ?s3"
        by simp
      from assms \<open>cv2_imread w p = Some img\<close> False Some ps s3 show ?thesis
        by (intro post[of img outp pr s4])
           (auto simp: run_pipeline_def preprocess_image_def Let_def split: sum.splits)
    qed
  qed
qed


lemma count_class_other:
  "count_class L k s = Inr (name, s2) \<Longrightarrow> other_fields s2 = other_fields s"
  by (auto simp: count_class_def other_fields_def Let_def split: if_splits option.splits)

lemma draw_detections_frame:
  "draw_detections L a b y cands idxs s img dets = (e, s', img', dets') \<Longrightarrow>
   other_fields s' = other_fields s"
proof (induction idxs arbitrary: s img dets)
  case Nil
  then show ?case by simp
next
  case (Cons i idxs)
  let ?s1 = "s\<lparr>total_objects := Suc (total_objects s)\<rparr>"
  have o1: "other_fields ?s1 = other_fields s" by (simp add: other_fields_def)
  show ?case
  proof (cases "length cands \<le> i")
    case True
    with Cons.prems o1 show ?thesis by (auto simp: Let_def)
  next
    case False
    show ?thesis
    proof (cases "count_class L (class_id (cands ! i)) ?s1")
      case (Inl e)
      with False Cons.prems o1 show ?thesis by (auto simp: Let_def)
    next
      case (Inr r)
      obtain name s2 where r: "r = (name, s2)" by (cases r)
      from Cons.prems False Inr r
      have rec: "draw_detections L a b y cands idxs s2 (draw_detection a b name (cands ! i) img)
              (dets @ [make_detection y name (cands ! i)]) = (e, s', img', dets')"
        by (simp add: Let_def)
      from Cons.IH[OF rec] count_class_other[OF Inr[unfolded r]] o1 show ?thesis by simp
    qed
  qed
qed

lemma postprocess_core_frame:
  assumes "postprocess_core w cfg score a b y s p t dims out = (r, s')"
  shows "total_time s' = total_time s \<and> inference_time s' = inference_time s \<and>
         num_frames s' = num_frames s \<and> resized_img s' = resized_img s"
proof (cases "\<exists>img rw rh rows rest cands. \<not> list_ex (list_ex (list_ex isnan)) t \<and>
     cv2_imread w p = Some img \<and> resized_img s = Some (rw, rh)
     \<and> \<not> (rw = 0 \<or> rh = 0) \<and> t = rows # rest \<and>
     decode_rows (conf_th cfg) score (fst dims) (snd dims)
             (real (snd dims) / real rw) (real (fst dims) / real rh) rows = Inr cands")
  case True
  then obtain img rw rh rows rest cands where h: "\<not> list_ex (list_ex (list_ex isnan)) t"
      "cv2_imread w p = Some img"
      "resized_img s = Some (rw, rh)" "\<not> (rw = 0 \<or> rh = 0)" "t = rows # rest"
      "decode_rows (conf_th cfg) score (fst dims) (snd dims)
             (real (snd dims) / real rw) (real (fst dims) / real rh) rows = Inr cands"
    by blast
  obtain e m i d where sd: "suppress_and_draw w cfg a b y cands s img = (e, m, i, d)"
    by (cases "suppress_and_draw w cfg a b y cands s img") auto
  have "other_fields m = other_fields s"
    using sd draw_detections_frame by (auto simp: suppress_and_draw_def split: if_splits)
  moreover have "(r, s') = (case e of Some x \<Rightarrow> (Inl x, m)
             | None \<Rightarrow> (Inr d, m\<lparr>written := written m @ [(out, i)]\<rparr>))"
    using assms h sd by (cases e) (simp_all add: postprocess_core_def Let_def)
  ultimately show ?thesis by (cases e) (auto simp: other_fields_def)
next
  case False
  with assms show ?thesis
    by (auto simp: postprocess_core_def Let_def
        split: option.splits list.splits sum.splits if_splits)
qed

lemma run_pipeline_success:
  assumes "run_pipeline (postprocess_core w cfg score a b y) w cfg s p sd = (r, s')"
    and "success r"
  shows "\<exists>dets. detections r = Some dets \<and> total_objects s' = total_objects s + length dets \<and>
           total_time s' = total_time s + preprocess_seconds w p + inference_seconds w p \<and>
           inference_time s' = inference_time s + inference_seconds w p"
  using assms(1)
proof (cases rule: run_pipeline_cases)
  case unreadable
  with assms(2) show ?thesis by (simp add: failed_def)
next
  case (resize img)
  with assms(2) show ?thesis by (simp add: failed_def)
next
  case (engine img)
  with assms(2) show ?thesis by (simp add: failed_def)
next
  case (post img outp pr s4)
  from post(6) assms(2) obtain dets where pr: "pr = Inr dets"
    by (cases pr) (auto simp: failed_def)
  from postprocess_core_counts(1)[OF post(4)[unfolded pr]]
    postprocess_core_frame[OF post(4)] post(5,6) pr
  show ?thesis by simp
qed


section \<open>The folder loop\<close>





lemma reset_counters_zero:
  "total_objects ((reset_counters cfg s)\<lparr>num_frames := n\<rparr>) = 0"
  "total_time ((reset_counters cfg s)\<lparr>num_frames := n\<rparr>) = 0"
  "inference_time ((reset_counters cfg s)\<lparr>num_frames := n\<rparr>) = 0"
  "num_frames ((reset_counters cfg s)\<lparr>num_frames := n\<rparr>) = n"
  by (simp_all add: reset_counters_def)


lemma infer_folder_as_loop:
  "infer_folder w cfg s folder sd =
     infer_folder_with
       (\<lambda>s p. run_pipeline (postprocess_core w cfg (conf_th cfg) (show_labels cfg)
                  (show_conf cfg) True) w cfg s p sd) w cfg s folder"
  by (simp add: infer_folder_def infer_single_image_def postprocess_image_def)


lemma infer_single_image_reset:
  "infer_single_image w cfg s p sd True =
     run_pipeline (postprocess_core w cfg (conf_th cfg) (show_labels cfg) (show_conf cfg) True)
       w cfg ((reset_counters cfg s)\<lparr>num_frames := 1\<rparr>) p sd"
  by (simp add: infer_single_image_def postprocess_image_def)

lemma infer_single_image_success:
  assumes "success (fst (infer_single_image w cfg s p sd True))"
  shows "\<exists>dets. detections (fst (infer_single_image w cfg s p sd True)) = Some dets \<and>
           total_objects (snd (infer_single_image w cfg s p sd True)) = length dets \<and>
           total_time (snd (infer_single_image w cfg s p sd True)) =
             preprocess_seconds w p + inference_seconds w p \<and>
           inference_time (snd (infer_single_image w cfg s p sd True)) = inference_seconds w p"
proof -
  obtain r s' where rs: "infer_single_image w cfg s p sd True = (r, s')"
    by (cases "infer_single_image w cfg s p sd True")
  from run_pipeline_success[OF rs[unfolded infer_single_image_reset]] assms rs
  show ?thesis by (simp add: reset_counters_zero)
qed




section \<open>Facts about the detection log\<close>

lemma detection_row_not_header: "detection_row f d = Inr row \<Longrightarrow> row \<noteq> csv_header"
  by (auto simp: detection_row_def csv_header_def split: option.splits prod.splits)

lemma detection_rows_facts:
  "length (fst (detection_rows f dets)) \<le> length dets \<and>
   csv_header \<notin> set (fst (detection_rows f dets)) \<and>
   ((\<forall>d \<in> set dets. det_yolo_bbox d \<noteq> None) \<longrightarrow>
      length (fst (detection_rows f dets)) = length dets \<and> snd (detection_rows f dets) = None)"
proof (induction dets)
  case Nil
  then show ?case by simp
next
  case (Cons d dets)
  show ?case
  proof (cases "detection_row f d")
    case (Inl e)
    then have "det_yolo_bbox d = None"
      by (auto simp: detection_row_def split: option.splits prod.splits)
    with Inl show ?thesis by simp
  next
    case (Inr row)
    obtain rows e where r: "detection_rows f dets = (rows, e)" by (cases "detection_rows f dets")
    from Inr r Cons detection_row_not_header[OF Inr] show ?thesis by auto
  qed
qed

lemma write_detections_appends:
  assumes "csv_file srv = Some old"
  shows "csv_file (snd (write_detections_to_csv srv image_path dets)) =
           Some (old @ fst (detection_rows (basename image_path) dets))"
    and "inferencer_state (snd (write_detections_to_csv srv image_path dets)) = inferencer_state srv"
    and "output_dir (snd (write_detections_to_csv srv image_path dets)) = output_dir srv"
    and "fst (write_detections_to_csv srv image_path dets) =
           snd (detection_rows (basename image_path) dets)"
  using assms
  by (auto simp: write_detections_to_csv_def split: prod.splits)

lemma write_results_appends:
  assumes "csv_file srv = Some old"
  shows "\<exists>rows. csv_file (write_results srv rs) = Some (old @ rows) \<and> csv_header \<notin> set rows \<and>
           ((\<forall>r \<in> set rs. \<forall>dets. success r \<and> detections r = Some dets \<longrightarrow>
                (\<forall>d \<in> set dets. det_yolo_bbox d \<noteq> None)) \<longrightarrow>
              rows = concat (map result_rows rs))"
  using assms
proof (induction rs arbitrary: srv old)
  case Nil
  then show ?case by simp
next
  case (Cons r rs)
  show ?case
  proof (cases "success r \<and> detections r \<noteq> None")
    case False
    then have w: "write_results srv (r # rs) = write_results srv rs"
      by (auto split: option.splits)
    from False have rr: "result_rows r = []"
      by (auto simp: result_rows_def split: option.splits)
    from Cons.IH[OF Cons.prems] obtain rows where
      "csv_file (write_results srv rs) = Some (old @ rows)" "csv_header \<notin> set rows"
      "(\<forall>r \<in> set rs. \<forall>dets. success r \<and> detections r = Some dets \<longrightarrow>
                (\<forall>d \<in> set dets. det_yolo_bbox d \<noteq> None)) \<longrightarrow>
              rows = concat (map result_rows rs)" by blast
    then show ?thesis unfolding w using rr by auto
  next
    case True
    then obtain dets where d: "detections r = Some dets" "success r" by auto
    let ?w = "write_detections_to_csv srv (input_path r) dets"
    let ?new = "fst (detection_rows (basename (input_path r)) dets)"
    note wa = write_detections_appends[OF Cons.prems, of "input_path r" dets]
    note df = detection_rows_facts[of "basename (input_path r)" dets]
    have rr: "result_rows r = ?new" using d by (simp add: result_rows_def)
    show ?thesis
    proof (cases "fst ?w")
      case None
      then have w: "write_results srv (r # rs) = write_results (snd ?w) rs"
        using d by (auto split: prod.splits)
      from Cons.IH[OF wa(1)] obtain rows where ih:
        "csv_file (write_results (snd ?w) rs) = Some ((old @ ?new) @ rows)"
        "csv_header \<notin> set rows"
        "(\<forall>r \<in> set rs. \<forall>dets. success r \<and> detections r = Some dets \<longrightarrow>
                (\<forall>d \<in> set dets. det_yolo_bbox d \<noteq> None)) \<longrightarrow>
              rows = concat (map result_rows rs)" by blast
      show ?thesis
        unfolding w
        by (rule exI[where x = "?new @ rows"]) (use ih df rr in auto)
    next
      case (Some e)
      then have w: "write_results srv (r # rs) = snd ?w"
        using d by (auto split: prod.splits)
      from Some wa(4) df have bad: "\<not> (\<forall>d \<in> set dets. det_yolo_bbox d \<noteq> None)" by auto
      show ?thesis
        unfolding w
        by (rule exI[where x = ?new]) (use wa(1) df bad d in auto)
    qed
  qed
qed


lemma postprocess_core_made:
  assumes "postprocess_core w cfg score a b y s p t dims out = (Inr dets, s')"
    and "d \<in> set dets"
  shows "\<exists>c name. d = make_detection y name c"
proof -
  have nonan: "\<not> list_ex (list_ex (list_ex isnan)) t"
    using assms by (auto simp: postprocess_core_def Let_def split: option.splits)
  from assms nonan obtain img where img: "cv2_imread w p = Some img"
    by (auto simp: postprocess_core_def Let_def split: option.splits)
  from assms nonan img obtain rw rh where rs: "resized_img s = Some (rw, rh)"
    by (auto simp: postprocess_core_def Let_def split: option.splits)
  from assms nonan img rs have nz: "\<not> (rw = 0 \<or> rh = 0)"
    by (auto simp: postprocess_core_def Let_def split: if_splits)
  from assms nonan img rs nz obtain rows rest where t: "t = rows # rest"
    by (cases t) (auto simp: postprocess_core_def Let_def)
  let ?dec = "decode_rows (conf_th cfg) score (fst dims) (snd dims)
             (real (snd dims) / real rw) (real (fst dims) / real rh) rows"
  from assms nonan img rs nz t obtain cands where dec: "?dec = Inr cands"
    by (cases ?dec) (auto simp: postprocess_core_def Let_def)
  from assms(1) nonan img rs nz t dec obtain s'' img' where
    sd: "suppress_and_draw w cfg a b y cands s img = (None, s'', img', dets)" (is "?sd = _")
    by (cases ?sd) (auto simp: postprocess_core_def Let_def split: option.splits)
  show ?thesis
  proof (cases "cands = []")
    case True
    with sd assms(2) show ?thesis by (simp add: suppress_and_draw_def)
  next
    case False
    with sd have "draw_detections (class_labels cfg) a b y cands (indices_nms w cfg cands) s img []
        = (None, s'', img', dets)"
      by (simp add: suppress_and_draw_def)
    from draw_detections_origin[OF this assms(2)] show ?thesis by auto
  qed
qed

lemma run_pipeline_input_path:
  "input_path (fst (run_pipeline post w cfg s p sd)) = p"
proof -
  obtain r s' where rs: "run_pipeline post w cfg s p sd = (r, s')"
    by (cases "run_pipeline post w cfg s p sd")
  then have "input_path r = p"
    by (cases rule: run_pipeline_cases) (auto simp: failed_def split: sum.splits)
  with rs show ?thesis by simp
qed

lemma run_pipeline_yolo:
  assumes "run_pipeline (postprocess_core w cfg score a b True) w cfg s p sd = (r, s')"
    and "success r" and "detections r = Some dets" and "d \<in> set dets"
  shows "det_yolo_bbox d \<noteq> None"
  using assms(1)
proof (cases rule: run_pipeline_cases)
  case (post img outp pr s4)
  from post(6) assms(2,3) have pr: "pr = Inr dets"
    by (cases pr) (auto simp: failed_def)
  from postprocess_core_made[OF post(4)[unfolded pr] assms(4)]
  obtain c name where "d = make_detection True name c" by blast
  then show ?thesis by (simp add: make_detection_def)
qed (use assms(2) in \<open>simp_all add: failed_def\<close>)

lemma infer_images_results:
  fixes post w cfg sd
  defines "body \<equiv> (\<lambda>s p. run_pipeline post w cfg s p sd)"
  shows "map input_path (fst (infer_images body ps s)) = ps"
proof (induction ps arbitrary: s)
  case Nil
  then show ?case by simp
next
  case (Cons p ps)
  obtain r s1 where b: "body s p = (r, s1)" by (cases "body s p")
  obtain rs s2 where l: "infer_images body ps s1 = (rs, s2)" by (cases "infer_images body ps s1")
  have "input_path r = p"
    using run_pipeline_input_path[of post w cfg s p sd] b by (simp add: body_def)
  with Cons.IH[of s1] b l show ?case by simp
qed

lemma infer_images_yolo:
  fixes w cfg score a b sd
  defines "body \<equiv> (\<lambda>s p. run_pipeline (postprocess_core w cfg score a b True) w cfg s p sd)"
  shows "\<forall>r \<in> set (fst (infer_images body ps s)). \<forall>dets. success r \<and> detections r = Some dets \<longrightarrow>
           (\<forall>d \<in> set dets. det_yolo_bbox d \<noteq> None)"
proof (induction ps arbitrary: s)
  case Nil
  then show ?case by simp
next
  case (Cons p ps)
  obtain r s1 where b: "body s p = (r, s1)" by (cases "body s p")
  obtain rs s2 where l: "infer_images body ps s1 = (rs, s2)" by (cases "infer_images body ps s1")
  have "\<forall>dets. success r \<and> detections r = Some dets \<longrightarrow> (\<forall>d \<in> set dets. det_yolo_bbox d \<noteq> None)"
    using run_pipeline_yolo[OF b[unfolded body_def]] by blast
  with Cons.IH[of s1] b l show ?case by simp
qed

lemma infer_folder_with_results:
  assumes "fst (infer_folder_with body w cfg s folder) = Inr (Processed m rs)"
  shows "\<exists>ps. get_images_from_folder w folder = Inr ps \<and>
           rs = fst (infer_images body ps ((reset_counters cfg s)\<lparr>num_frames := length ps\<rparr>))"
  using assms
  by (auto simp: infer_folder_with_def Let_def split: sum.splits if_splits prod.splits)

lemma process_folder_appends:
  assumes "path_exists w folder" and "csv_file srv = Some old"
    and "fst (infer_folder w cfg (inferencer_state srv) folder (output_dir srv)) =
           Inr (Processed m rs)"
  shows "csv_file (process_folder w cfg srv folder) = Some (old @ concat (map result_rows rs))"
proof -
  let ?body = "\<lambda>s p. run_pipeline (postprocess_core w cfg (conf_th cfg) (show_labels cfg)
                  (show_conf cfg) True) w cfg s p (output_dir srv)"
  obtain r s' where run: "infer_folder w cfg (inferencer_state srv) folder (output_dir srv) = (r, s')"
    by (cases "infer_folder w cfg (inferencer_state srv) folder (output_dir srv)")
  with assms(3) have r: "r = Inr (Processed m rs)" by simp
  from infer_folder_with_results[OF assms(3)[unfolded infer_folder_as_loop]]
  obtain ps where ps: "rs = fst (infer_images ?body ps
      ((reset_counters cfg (inferencer_state srv))\<lparr>num_frames := length ps\<rparr>))" by blast
  have yolo: "\<forall>r \<in> set rs. \<forall>dets. success r \<and> detections r = Some dets \<longrightarrow>
           (\<forall>d \<in> set dets. det_yolo_bbox d \<noteq> None)"
    unfolding ps by (rule infer_images_yolo)
  have c: "csv_file (srv\<lparr>inferencer_state := s'\<rparr>) = Some old" using assms(2) by simp
  from write_results_appends[OF c, of rs] yolo
  have "csv_file (write_results (srv\<lparr>inferencer_state := s'\<rparr>) rs) =
      Some (old @ concat (map result_rows rs))" by blast
  then show ?thesis
    using assms(1) run r by (simp add: process_folder_def Let_def)
qed

section \<open>Facts about the suppressor\<close>
















section \<open>The examples, evaluated\<close>

lemma demo_decode:
  "decode_rows (Fin (1 / 4)) (Fin (1 / 4)) 480 640 1 (3 / 4) [demo_row1, demo_row2] =
     Inr [\<lparr>class_id = 1, confidence = Fin (9 / 10), bbox = (100, 60, 17, 30),
            yolo_box = (217 / 2, 100, 17, 40)\<rparr>,
          \<lparr>class_id = 1, confidence = Fin (4 / 5), bbox = (103, 60, 17, 30),
            yolo_box = (223 / 2, 100, 17, 40)\<rparr>]"
  by (simp add: decode_row_def demo_row1_def demo_row2_def scaled_box_def py_int_def Let_def
      fl_le_def)


lemma demo_nms_order: "nms_order [Fin (9 / 10), Fin (4 / 5)] = [0, 1]"
  by (simp add: nms_order_def upt_rec less_eq_prod_def)

lemma demo_nms:
  "NMSBoxes [(100, 60, 17, 30), (103, 60, 17, 30)] [Fin (9 / 10), Fin (4 / 5)] (Fin (1 / 4))
     (Fin (45 / 100)) = Some [0]"
  by (simp add: NMSBoxes_def demo_nms_order overlaps_def iou_def box_intersection_def
      box_area_def Let_def)


lemmas demo_defs =
  postprocess_image_def postprocess_image_fp32_def postprocess_core_def demo_world_def
  demo_config_def demo_inferencer_def initial_inferencer_def demo_tensor_def decode_row_def
  demo_row1_def demo_row2_def scaled_box_def py_int_def fl_le_def fl_ge_def suppress_and_draw_def
  indices_nms_def count_class_def zero_counts_def NMSBoxes_def nms_order_def upt_rec
  less_eq_prod_def overlaps_def iou_def box_intersection_def box_area_def make_detection_def
  draw_detection_def demo_image_def Let_def

lemma demo_postprocess:
  "postprocess_image demo_world demo_config demo_inferencer ''in/a.jpg'' demo_tensor (480, 640)
     ''out/a.jpg'' =
   (Inr [\<lparr>det_class = ''car'', det_confidence = Fin (9 / 10), det_bbox = (100, 60, 17, 30),
          det_yolo_bbox = Some (217 / 2, 100, 17, 40)\<rparr>],
    demo_inferencer\<lparr>total_objects := 1, objects_by_class := [(''person'', 0), (''car'', 1)],
      written := [(''out/a.jpg'', demo_image\<lparr>drawn := [Rectangle 100 60 117 90,
         LabelBackground 100 60, LabelText ''car'' (Some (Fin (9 / 10))) 100 55]\<rparr>)]\<rparr>)"
  by (simp add: demo_defs)


lemma demo_postprocess_unknown:
  "postprocess_image demo_world demo_one_label_config demo_inferencer ''in/a.jpg'' demo_tensor
     (480, 640) ''out/a.jpg'' =
   (Inr [\<lparr>det_class = ''Unknown'', det_confidence = Fin (9 / 10), det_bbox = (100, 60, 17, 30),
          det_yolo_bbox = Some (217 / 2, 100, 17, 40)\<rparr>],
    demo_inferencer\<lparr>total_objects := 1,
      written := [(''out/a.jpg'', demo_image\<lparr>drawn := [Rectangle 100 60 117 90,
         LabelBackground 100 60, LabelText ''Unknown'' (Some (Fin (9 / 10))) 100 55]\<rparr>)]\<rparr>)"
  by (simp add: demo_one_label_config_def demo_defs)

lemma demo_draw_unknown:
  "draw_detections [''person''] True True True
     [\<lparr>class_id = 1, confidence = Fin (9 / 10), bbox = (100, 60, 17, 30),
            yolo_box = (217 / 2, 100, 17, 40)\<rparr>] [0] demo_inferencer demo_image [] =
   (None, demo_inferencer\<lparr>total_objects := 1\<rparr>,
    demo_image\<lparr>drawn := [Rectangle 100 60 117 90,
         LabelBackground 100 60, LabelText ''Unknown'' (Some (Fin (9 / 10))) 100 55]\<rparr>,
    [\<lparr>det_class = ''Unknown'', det_confidence = Fin (9 / 10), det_bbox = (100, 60, 17, 30),
          det_yolo_bbox = Some (217 / 2, 100, 17, 40)\<rparr>])"
  by (simp add: demo_defs)

lemma demo_counts:
  "class_count_total demo_inferencer = 0" "total_objects demo_inferencer = 0"
  by (simp_all add: class_count_total_def demo_defs)

lemma demo_listing:
  "get_images_from_folder demo_world ''in'' = Inr [''in/a.jpg'', ''in/b.jpg'', ''in/c.PNG'']"
  by (simp add: get_images_from_folder_def demo_world_def image_extensions_def endswith_def
      lower_def lower_char_def path_join_def)

lemma demo_listing_mixed:
  "get_images_from_folder demo_world ''mixed'' = Inr [''mixed/z.jpg'', ''mixed/a.jpg'']"
  by (simp add: get_images_from_folder_def demo_world_def image_extensions_def endswith_def
      lower_def lower_char_def path_join_def)

lemmas demo_run_defs =
  infer_single_image_def
  run_pipeline_def preprocess_image_def reset_counters_def generate_metrics_def failed_def
  path_join_def basename_def

lemma demo_folder:
  "fst (infer_folder demo_world demo_config (initial_inferencer demo_config) ''in'' ''out'') =
   Inr (Processed
     (Some \<lparr>m_num_frames = 3, m_total_time = 3 / 50, m_inference_time = 1 / 25,
            m_average_fps = 50, m_average_inference_time = 1 / 75, m_total_objects = 2,
            m_invalid_outputs = 0, m_objects_by_class = [(''person'', 0), (''car'', 2)]\<rparr>)
     [\<lparr>success = True, input_path = ''in/a.jpg'', output_path = Some ''out/a.jpg'',
        detections = Some [\<lparr>det_class = ''car'', det_confidence = Fin (9 / 10),
          det_bbox = (100, 60, 17, 30), det_yolo_bbox = Some (217 / 2, 100, 17, 40)\<rparr>],
        error = None\<rparr>,
      \<lparr>success = False, input_path = ''in/b.jpg'', output_path = None, detections = None,
        error = Some ValueError\<rparr>,
      \<lparr>success = True, input_path = ''in/c.PNG'', output_path = Some ''out/c.PNG'',
        detections = Some [\<lparr>det_class = ''car'', det_confidence = Fin (9 / 10),
          det_bbox = (100, 60, 17, 30), det_yolo_bbox = Some (217 / 2, 100, 17, 40)\<rparr>],
        error = None\<rparr>])"
  unfolding infer_folder_def infer_folder_with_def demo_listing
  by (simp add: demo_run_defs demo_defs)

lemma demo_folder_mixed:
  "map input_path (folder_results (projr (fst
     (infer_folder demo_world demo_config (initial_inferencer demo_config) ''mixed'' ''out'')))) =
   [''mixed/z.jpg'', ''mixed/a.jpg'']"
  unfolding infer_folder_def infer_folder_with_def demo_listing_mixed
  by (simp add: demo_run_defs demo_defs)


lemma demo_single_counts:
  "total_objects (snd (infer_single_image demo_world demo_config s ''mixed/z.jpg'' ''out'' True)) = 1"
  "total_objects (snd (infer_single_image demo_world demo_config s ''mixed/a.jpg'' ''out'' True)) = 1"
  "success (fst (infer_single_image demo_world demo_config s ''mixed/z.jpg'' ''out'' True))"
  "success (fst (infer_single_image demo_world demo_config s ''in/a.jpg'' ''out'' True))"
  "success (fst (infer_single_image demo_world demo_config s ''in/c.PNG'' ''out'' True))"
  by (simp_all add: demo_run_defs demo_defs)

lemma demo_csv_mixed:
  "csv_file (process_folder demo_world demo_config (init_csv_file demo_server) ''mixed'') =
   Some [csv_header,
     [CStr ''z.jpg'', CStr ''car'', CFloat (Fin (9 / 10)), CInt 100, CInt 60,
      CInt 17, CInt 30, CReal (217 / 2), CReal 100, CReal 17, CReal 40],
     [CStr ''a.jpg'', CStr ''car'', CFloat (Fin (9 / 10)), CInt 100, CInt 60,
      CInt 17, CInt 30, CReal (217 / 2), CReal 100, CReal 17, CReal 40]]"
  unfolding process_folder_def infer_folder_def infer_folder_with_def demo_listing_mixed
  by (simp add: demo_run_defs demo_defs demo_server_def init_csv_file_def
      write_detections_to_csv_def detection_row_def)

lemma demo_single_detections:
  "length (the (detections (fst (infer_single_image demo_world demo_config s ''in/a.jpg''
      ''out'' True)))) = 1"
  by (simp add: demo_run_defs demo_defs)


section \<open>Thresholds of the decoder\<close>



section \<open>Boxes of the decoder\<close>

text \<open>
  Claim C6. Every candidate the decoder loop emits has a box with a corner at or above
  zero, inside the image whose height and width the loop was given, and of positive
  width and height; a row whose box would be empty is skipped.
\<close>

theorem decoder_box_within_image:
  assumes "decode_rows cth sth height width scale_x scale_y rows = Inr cands"
    and "c \<in> set cands"
    and "bbox c = (x, y, bw, bh)"
  shows "0 \<le> x \<and> 0 \<le> y \<and> x + bw \<le> int width \<and> y + bh \<le> int height \<and> 0 < bw \<and> 0 < bh"
proof -
  from decode_rows_origin[OF assms(1,2)] obtain detect where
    "decode_row cth sth height width scale_x scale_y detect = Inr (Some c)" by blast
  note d = decode_row_SomeD[OF this]
  from d(8) assms(3) have "0 \<le> x \<and> 0 \<le> y \<and> x + bw \<le> int width \<and> y + bh \<le> int height"
    using scaled_box_inside by metis
  moreover from d(9,10) assms(3) have "0 < bw \<and> 0 < bh" by simp
  ultimately show ?thesis by simp
qed

theorem decoder_box_within_image_witness:
  "decode_rows (Fin (1 / 4)) (Fin (1 / 4)) 480 640 1 (3 / 4) [demo_row1, demo_row2] =
     Inr [\<lparr>class_id = 1, confidence = Fin (9 / 10), bbox = (100, 60, 17, 30),
            yolo_box = (217 / 2, 100, 17, 40)\<rparr>,
          \<lparr>class_id = 1, confidence = Fin (4 / 5), bbox = (103, 60, 17, 30),
            yolo_box = (223 / 2, 100, 17, 40)\<rparr>] \<and>
   (0::int) \<le> 103 \<and> (0::int) \<le> 60 \<and> (103::int) + 17 \<le> int 640 \<and> (60::int) + 30 \<le> int 480 \<and>
   (0::int) < 17 \<and> (0::int) < 30"
  using decoder_box_within_image[OF demo_decode, where x = 103 and y = 60 and bw = 17 and bh = 30
     and c = "\<lparr>class_id = 1, confidence = Fin (4 / 5), bbox = (103, 60, 17, 30),
            yolo_box = (223 / 2, 100, 17, 40)\<rparr>"]
    demo_decode
  by simp


section \<open>The two object counters\<close>

text \<open>
  Claim C10. After \<^verbatim>\<open>postprocess_image\<close>, \<^verbatim>\<open>total_objects\<close> is at least the sum of
  the counts in \<^verbatim>\<open>objects_by_class\<close>, provided it was before the call, as it is after
  \<^verbatim>\<open>reset_counters\<close> (first conjunct, both servers, whatever the call returns or
  raises). The loop over the surviving indices adds one to \<^verbatim>\<open>total_objects\<close> per
  index and one to a class count per index whose class is in the label table; the others
  are named \<open>Unknown\<close>; so starting from equal counters they end equal exactly when
  every surviving class index is in range (second conjunct). For a returning call the
  same is read off the detections, when no label is itself \<open>Unknown\<close> (third
  conjunct).
\<close>

theorem counters_total_vs_by_class:
  "(class_count_total s \<le> total_objects s \<longrightarrow>
      class_count_total (snd (postprocess_image w cfg s image_path t dims out))
        \<le> total_objects (snd (postprocess_image w cfg s image_path t dims out)) \<and>
      class_count_total (snd (postprocess_image_fp32 w cfg s image_path t dims out))
        \<le> total_objects (snd (postprocess_image_fp32 w cfg s image_path t dims out))) \<and>
   (draw_detections L a b y cands idxs s img [] = (None, s1, img1, dets1) \<longrightarrow>
      total_objects s1 = total_objects s + length idxs \<and>
      class_count_total s1 =
        class_count_total s + length (filter (\<lambda>i. class_id (cands ! i) < length L) idxs) \<and>
      map det_class dets1 =
        map (\<lambda>i. if class_id (cands ! i) < length L then L ! class_id (cands ! i)
                  else ''Unknown'') idxs \<and>
      (class_count_total s = total_objects s \<longrightarrow>
         (class_count_total s1 = total_objects s1 \<longleftrightarrow>
            (\<forall>i \<in> set idxs. class_id (cands ! i) < length L)))) \<and>
   ((postprocess_image w cfg s image_path t dims out = (Inr dets, s') \<or>
     postprocess_image_fp32 w cfg s image_path t dims out = (Inr dets, s')) \<and>
    ''Unknown'' \<notin> set (class_labels cfg) \<longrightarrow>
      total_objects s' = total_objects s + length dets \<and>
      class_count_total s' =
        class_count_total s + length (filter (\<lambda>d. det_class d \<noteq> ''Unknown'') dets) \<and>
      (class_count_total s = total_objects s \<longrightarrow>
         (class_count_total s' = total_objects s' \<longleftrightarrow>
            (\<forall>d \<in> set dets. det_class d \<noteq> ''Unknown''))))"
proof (intro conjI impI)
  assume inv: "class_count_total s \<le> total_objects s"
  show "class_count_total (snd (postprocess_image w cfg s image_path t dims out))
        \<le> total_objects (snd (postprocess_image w cfg s image_path t dims out))"
    using postprocess_core_gap[OF prod.collapse[symmetric], of w cfg "conf_th cfg"
        "show_labels cfg" "show_conf cfg" True s image_path t dims out] inv
    by (simp add: postprocess_image_def)
  show "class_count_total (snd (postprocess_image_fp32 w cfg s image_path t dims out))
        \<le> total_objects (snd (postprocess_image_fp32 w cfg s image_path t dims out))"
    using postprocess_core_gap[OF prod.collapse[symmetric], of w cfg "score_th cfg" True True
        False s image_path t dims out] inv
    by (simp add: postprocess_image_fp32_def)
next
  assume dd: "draw_detections L a b y cands idxs s img [] = (None, s1, img1, dets1)"
  note c = draw_detections_counts[OF dd]
  show "total_objects s1 = total_objects s + length idxs" using c by simp
  show "class_count_total s1 =
        class_count_total s + length (filter (\<lambda>i. class_id (cands ! i) < length L) idxs)"
    using c by simp
  show "map det_class dets1 =
        map (\<lambda>i. if class_id (cands ! i) < length L then L ! class_id (cands ! i)
                  else ''Unknown'') idxs"
    using c by simp
  assume eq: "class_count_total s = total_objects s"
  have "length (filter (\<lambda>i. class_id (cands ! i) < length L) idxs) = length idxs \<longleftrightarrow>
     (\<forall>i \<in> set idxs. class_id (cands ! i) < length L)"
    by (rule length_filter_eq_iff)
  with c eq show "class_count_total s1 = total_objects s1 \<longleftrightarrow>
            (\<forall>i \<in> set idxs. class_id (cands ! i) < length L)"
    by simp
next
  assume h: "(postprocess_image w cfg s image_path t dims out = (Inr dets, s') \<or>
     postprocess_image_fp32 w cfg s image_path t dims out = (Inr dets, s')) \<and>
    ''Unknown'' \<notin> set (class_labels cfg)"
  then obtain score la lb ly where
    pc: "postprocess_core w cfg score la lb ly s image_path t dims out = (Inr dets, s')"
    unfolding postprocess_image_def postprocess_image_fp32_def by blast
  note c = postprocess_core_counts[OF pc]
  from h have u: "''Unknown'' \<notin> set (class_labels cfg)" by simp
  show tot: "total_objects s' = total_objects s + length dets" by (rule c(1))
  show cnt: "class_count_total s' =
        class_count_total s + length (filter (\<lambda>d. det_class d \<noteq> ''Unknown'') dets)"
    by (rule c(2)[OF u])
  assume eq: "class_count_total s = total_objects s"
  have "length (filter (\<lambda>d. det_class d \<noteq> ''Unknown'') dets) = length dets \<longleftrightarrow>
     (\<forall>d \<in> set dets. det_class d \<noteq> ''Unknown'')"
    by (rule length_filter_eq_iff)
  with tot cnt eq show "class_count_total s' = total_objects s' \<longleftrightarrow>
            (\<forall>d \<in> set dets. det_class d \<noteq> ''Unknown'')"
    by simp
qed


theorem counters_total_vs_by_class_witness:
  "class_count_total demo_inferencer = total_objects demo_inferencer \<and>
   class_count_total (snd (postprocess_image demo_world demo_config demo_inferencer ''in/a.jpg''
       demo_tensor (480, 640) ''out/a.jpg''))
     \<le> total_objects (snd (postprocess_image demo_world demo_config demo_inferencer ''in/a.jpg''
       demo_tensor (480, 640) ''out/a.jpg'')) \<and>
   class_count_total (snd (postprocess_image demo_world demo_config demo_inferencer ''in/a.jpg''
       demo_tensor (480, 640) ''out/a.jpg''))
     = total_objects (snd (postprocess_image demo_world demo_config demo_inferencer ''in/a.jpg''
       demo_tensor (480, 640) ''out/a.jpg'')) \<and>
   total_objects (snd (postprocess_image demo_world demo_one_label_config demo_inferencer
       ''in/a.jpg'' demo_tensor (480, 640) ''out/a.jpg'')) = total_objects demo_inferencer + 1 \<and>
   class_count_total (snd (postprocess_image demo_world demo_one_label_config demo_inferencer
       ''in/a.jpg'' demo_tensor (480, 640) ''out/a.jpg'')) = class_count_total demo_inferencer \<and>
   class_count_total (demo_inferencer\<lparr>total_objects := 1\<rparr>)
     \<noteq> total_objects (demo_inferencer\<lparr>total_objects := 1\<rparr>)"
proof -
  let ?c1 = "\<lparr>class_id = 1, confidence = Fin (9 / 10), bbox = (100, 60, 17, 30),
            yolo_box = (217 / 2, 100, 17, 40)\<rparr>"
  let ?dK = "\<lparr>det_class = ''car'', det_confidence = Fin (9 / 10), det_bbox = (100, 60, 17, 30),
          det_yolo_bbox = Some (217 / 2, 100, 17, 40)\<rparr>"
  let ?dU = "\<lparr>det_class = ''Unknown'', det_confidence = Fin (9 / 10), det_bbox = (100, 60, 17, 30),
          det_yolo_bbox = Some (217 / 2, 100, 17, 40)\<rparr>"
  let ?sK = "demo_inferencer\<lparr>total_objects := 1,
      objects_by_class := [(''person'', 0), (''car'', 1)],
      written := [(''out/a.jpg'', demo_image\<lparr>drawn := [Rectangle 100 60 117 90,
         LabelBackground 100 60, LabelText ''car'' (Some (Fin (9 / 10))) 100 55]\<rparr>)]\<rparr>"
  let ?sU = "demo_inferencer\<lparr>total_objects := 1,
      written := [(''out/a.jpg'', demo_image\<lparr>drawn := [Rectangle 100 60 117 90,
         LabelBackground 100 60, LabelText ''Unknown'' (Some (Fin (9 / 10))) 100 55]\<rparr>)]\<rparr>"
  let ?imgU = "demo_image\<lparr>drawn := [Rectangle 100 60 117 90,
         LabelBackground 100 60, LabelText ''Unknown'' (Some (Fin (9 / 10))) 100 55]\<rparr>"
  note tK = counters_total_vs_by_class[where s = demo_inferencer and w = demo_world
      and cfg = demo_config and image_path = "''in/a.jpg''" and t = demo_tensor
      and dims = "(480, 640)" and out = "''out/a.jpg''" and dets = "[?dK]" and s' = ?sK]
  note tU = counters_total_vs_by_class[where s = demo_inferencer and w = demo_world
      and cfg = demo_one_label_config and image_path = "''in/a.jpg''" and t = demo_tensor
      and dims = "(480, 640)" and out = "''out/a.jpg''" and dets = "[?dU]" and s' = ?sU
      and L = "[''person'']" and a = True and b = True and y = True and cands = "[?c1]"
      and idxs = "[0]" and img = demo_image and ?s1.0 = "demo_inferencer\<lparr>total_objects := 1\<rparr>"
      and ?img1.0 = ?imgU and ?dets1.0 = "[?dU]"]
  have eq0: "class_count_total demo_inferencer = total_objects demo_inferencer"
    by (simp add: demo_counts)
  then have le0: "class_count_total demo_inferencer \<le> total_objects demo_inferencer" by simp
  have uK: "(postprocess_image demo_world demo_config demo_inferencer ''in/a.jpg'' demo_tensor
        (480, 640) ''out/a.jpg'' = (Inr [?dK], ?sK) \<or>
      postprocess_image_fp32 demo_world demo_config demo_inferencer ''in/a.jpg'' demo_tensor
        (480, 640) ''out/a.jpg'' = (Inr [?dK], ?sK)) \<and>
      ''Unknown'' \<notin> set (class_labels demo_config)"
    unfolding demo_postprocess by (simp add: demo_config_def)
  have uU: "(postprocess_image demo_world demo_one_label_config demo_inferencer ''in/a.jpg''
        demo_tensor (480, 640) ''out/a.jpg'' = (Inr [?dU], ?sU) \<or>
      postprocess_image_fp32 demo_world demo_one_label_config demo_inferencer ''in/a.jpg''
        demo_tensor (480, 640) ''out/a.jpg'' = (Inr [?dU], ?sU)) \<and>
      ''Unknown'' \<notin> set (class_labels demo_one_label_config)"
    unfolding demo_postprocess_unknown by (simp add: demo_config_def demo_one_label_config_def)
  from tK[THEN conjunct1, THEN mp, OF le0, THEN conjunct1]
  have c1: "class_count_total (snd (postprocess_image demo_world demo_config demo_inferencer
       ''in/a.jpg'' demo_tensor (480, 640) ''out/a.jpg''))
     \<le> total_objects (snd (postprocess_image demo_world demo_config demo_inferencer ''in/a.jpg''
       demo_tensor (480, 640) ''out/a.jpg''))" .
  from tK[THEN conjunct2, THEN conjunct2, THEN mp, OF uK] eq0
  have c2: "class_count_total ?sK = total_objects ?sK" by simp
  from tU[THEN conjunct2, THEN conjunct2, THEN mp, OF uU]
  have c3: "total_objects ?sU = total_objects demo_inferencer + 1"
    "class_count_total ?sU = class_count_total demo_inferencer" by simp_all
  from tU[THEN conjunct2, THEN conjunct1, THEN mp, OF demo_draw_unknown] eq0
  have c4: "class_count_total (demo_inferencer\<lparr>total_objects := 1\<rparr>)
     \<noteq> total_objects (demo_inferencer\<lparr>total_objects := 1\<rparr>)" by simp
  show ?thesis
    unfolding demo_postprocess demo_postprocess_unknown snd_conv
    using eq0 c1[unfolded demo_postprocess snd_conv] c2 c3 c4 by blast
qed


section \<open>The whole-frame check\<close>

text \<open>
  Claim C1, as the specification states it, asks the short circuit for every tensor with
  a non-finite value. The source tests \<^verbatim>\<open>np.isnan(yolov5_output).any()\<close>, which an
  infinity does not satisfy: on a tensor whose first row has an infinite centre and
  whose second row is a valid detection, the rows are decoded, the detection is returned
  and drawn, and \<^verbatim>\<open>invalid_outputs\<close> stays as it was.
\<close>

theorem infinite_output_counterexample:
  "\<not> isfinite (hd (hd (hd [[demo_inf_row, demo_row1]]))) \<and>
   postprocess_image demo_world demo_config demo_inferencer ''in/a.jpg''
       [[demo_inf_row, demo_row1]] (480, 640) ''out/a.jpg'' =
     (Inr [\<lparr>det_class = ''car'', det_confidence = Fin (9 / 10), det_bbox = (100, 60, 17, 30),
            det_yolo_bbox = Some (217 / 2, 100, 17, 40)\<rparr>],
      demo_inferencer\<lparr>total_objects := 1, objects_by_class := [(''person'', 0), (''car'', 1)],
        written := [(''out/a.jpg'', demo_image\<lparr>drawn := [Rectangle 100 60 117 90,
           LabelBackground 100 60, LabelText ''car'' (Some (Fin (9 / 10))) 100 55]\<rparr>)]\<rparr>) \<and>
   invalid_outputs (snd (postprocess_image demo_world demo_config demo_inferencer ''in/a.jpg''
       [[demo_inf_row, demo_row1]] (480, 640) ''out/a.jpg'')) = invalid_outputs demo_inferencer"
  by (simp add: demo_inf_row_def demo_defs)


text \<open>
  Claim C1, amended. For every tensor that contains a NaN anywhere and an image file that
  can be read, \<^verbatim>\<open>postprocess_image\<close> of either server returns no detection, adds
  exactly one to \<^verbatim>\<open>invalid_outputs\<close>, changes no other counter, and writes the image
  as read with the warning caption as its only annotation. The result is the same
  whatever the rows hold, so no row is decoded.
\<close>

theorem nan_output_short_circuit:
  assumes "list_ex (list_ex (list_ex isnan)) t"
    and "cv2_imread w image_path = Some img"
  shows "postprocess_image w cfg s image_path t dims out =
           (Inr [],
            s\<lparr>invalid_outputs := Suc (invalid_outputs s),
              written := written s @
                [(out, img\<lparr>drawn := drawn img @
                    [PutText nan_caption (shape_w img div 10) (shape_h img div 2)]\<rparr>)]\<rparr>) \<and>
         postprocess_image_fp32 w cfg s image_path t dims out =
           postprocess_image w cfg s image_path t dims out"
  using assms
  by (simp add: postprocess_image_def postprocess_image_fp32_def postprocess_core_def Let_def)

theorem nan_output_short_circuit_witness:
  "list_ex (list_ex (list_ex isnan)) [[demo_row1, demo_nan_row]] \<and>
   cv2_imread demo_world ''in/a.jpg'' = Some demo_image \<and>
   postprocess_image demo_world demo_config demo_inferencer ''in/a.jpg''
       [[demo_row1, demo_nan_row]] (480, 640) ''out/a.jpg'' =
     (Inr [],
      demo_inferencer\<lparr>invalid_outputs := 1,
        written := [(''out/a.jpg'',
           demo_image\<lparr>drawn := [PutText ''No valid detections (NaN output)'' 64 240]\<rparr>)]\<rparr>) \<and>
   postprocess_image_fp32 demo_world demo_config demo_inferencer ''in/a.jpg''
       [[demo_row1, demo_nan_row]] (480, 640) ''out/a.jpg'' =
     postprocess_image demo_world demo_config demo_inferencer ''in/a.jpg''
       [[demo_row1, demo_nan_row]] (480, 640) ''out/a.jpg''"
proof -
  have h1: "list_ex (list_ex (list_ex isnan)) [[demo_row1, demo_nan_row]]"
    by (simp add: demo_nan_row_def)
  have h2: "cv2_imread demo_world ''in/a.jpg'' = Some demo_image"
    by (simp add: demo_world_def)
  from nan_output_short_circuit[OF h1 h2, of demo_config demo_inferencer "(480, 640)" "''out/a.jpg''"]
  show ?thesis
    using h1 h2
    by (simp add: demo_inferencer_def initial_inferencer_def demo_image_def nan_caption_def)
qed


section \<open>The summary of the metrics\<close>

text \<open>
  Claim C2, as the specification states it, has \<^verbatim>\<open>generate_metrics\<close> fail with a
  division by zero when no frame was counted. The source puts the whole report under
  \<^verbatim>\<open>if self.num_frames > 0\<close>: with no frame counted, as right after construction, it
  returns the empty dictionary and raises nothing.
\<close>

theorem zero_frames_counterexample:
  "num_frames (initial_inferencer demo_config) = 0 \<and>
   total_time (initial_inferencer demo_config) = 0 \<and>
   generate_metrics (initial_inferencer demo_config) = Inr None \<and>
   generate_metrics (initial_inferencer demo_config) \<noteq> Inl ZeroDivisionError"
  by (simp add: generate_metrics_def initial_inferencer_def)


text \<open>
  Claim C2, amended. With no frame counted \<^verbatim>\<open>generate_metrics\<close> returns the empty
  dictionary, whatever the total time; with a frame counted and a total time of zero it
  raises \<^verbatim>\<open>ZeroDivisionError\<close>; and a report it returns has a total time other than
  zero and holds the quotients of the counters, so no report holds a quotient by zero.
  The guard of the source is on the number of frames, not on the total time.
\<close>

theorem generate_metrics_cases:
  "(num_frames s = 0 \<longrightarrow> generate_metrics s = Inr None) \<and>
   (0 < num_frames s \<and> total_time s = 0 \<longrightarrow> generate_metrics s = Inl ZeroDivisionError) \<and>
   (generate_metrics s = Inr (Some m) \<longrightarrow>
      0 < num_frames s \<and> total_time s \<noteq> 0 \<and>
      m_average_fps m = real (num_frames s) / total_time s \<and>
      m_average_inference_time m = inference_time s / real (num_frames s))"
  by (auto simp: generate_metrics_def split: if_splits)

theorem generate_metrics_cases_witness:
  "num_frames (initial_inferencer demo_config) = 0 \<and>
   generate_metrics (initial_inferencer demo_config) = Inr None \<and>
   0 < num_frames ((initial_inferencer demo_config)\<lparr>num_frames := 3\<rparr>) \<and>
   total_time ((initial_inferencer demo_config)\<lparr>num_frames := 3\<rparr>) = 0 \<and>
   generate_metrics ((initial_inferencer demo_config)\<lparr>num_frames := 3\<rparr>) = Inl ZeroDivisionError \<and>
   generate_metrics ((initial_inferencer demo_config)\<lparr>num_frames := 3, total_time := 3 / 50\<rparr>) =
     Inr (Some \<lparr>m_num_frames = 3, m_total_time = 3 / 50, m_inference_time = 0,
                 m_average_fps = 50, m_average_inference_time = 0, m_total_objects = 0,
                 m_invalid_outputs = 0,
                 m_objects_by_class = [(''person'', 0), (''car'', 0)]\<rparr>) \<and>
   (50::real) = real 3 / (3 / 50)"
proof -
  let ?s0 = "initial_inferencer demo_config"
  let ?m = "\<lparr>m_num_frames = 3, m_total_time = 3 / 50, m_inference_time = 0,
                 m_average_fps = 50, m_average_inference_time = 0, m_total_objects = 0,
                 m_invalid_outputs = 0,
                 m_objects_by_class = [(''person'', 0), (''car'', 0)]\<rparr>"
  have h1: "num_frames ?s0 = 0" by (simp add: initial_inferencer_def)
  have h2: "0 < num_frames (?s0\<lparr>num_frames := 3\<rparr>) \<and> total_time (?s0\<lparr>num_frames := 3\<rparr>) = 0"
    by (simp add: initial_inferencer_def)
  have h3: "generate_metrics (?s0\<lparr>num_frames := 3, total_time := 3 / 50\<rparr>) = Inr (Some ?m)"
    by (simp add: generate_metrics_def initial_inferencer_def demo_config_def zero_counts_def)
  from generate_metrics_cases[of ?s0, THEN conjunct1, THEN mp, OF h1]
  have c1: "generate_metrics ?s0 = Inr None" .
  from generate_metrics_cases[of "?s0\<lparr>num_frames := 3\<rparr>", THEN conjunct2, THEN conjunct1, THEN mp, OF h2]
  have c2: "generate_metrics (?s0\<lparr>num_frames := 3\<rparr>) = Inl ZeroDivisionError" .
  from generate_metrics_cases[of "?s0\<lparr>num_frames := 3, total_time := 3 / 50\<rparr>" ?m,
      THEN conjunct2, THEN conjunct2, THEN mp, OF h3]
  have c3: "(50::real) = real 3 / (3 / 50)" by simp
  from h1 h2 h3 c1 c2 c3 show ?thesis by blast
qed


section \<open>Counters across the images of a folder\<close>





section \<open>A folder with an image that cannot be read\<close>






section \<open>The order of a folder\<close>

text \<open>
  Claim C4, as the specification states it, has the images of a folder processed in
  lexicographic order of their names. \<^verbatim>\<open>get_images_from_folder\<close> keeps the order of
  \<^verbatim>\<open>os.listdir\<close>, which the operating system chooses, and nothing sorts: for a
  listing that gives \<open>z.jpg\<close> before \<open>a.jpg\<close> the results and the rows of the
  detection log come in that order.
\<close>

theorem listing_order_counterexample:
  "listdir demo_world ''mixed'' = Some [''z.jpg'', ''a.jpg''] \<and>
   map input_path (folder_results (projr (fst
     (infer_folder demo_world demo_config (initial_inferencer demo_config) ''mixed'' ''out'')))) =
     [''mixed/z.jpg'', ''mixed/a.jpg''] \<and>
   \<not> sorted [''mixed/z.jpg'', ''mixed/a.jpg''] \<and>
   map hd (the (csv_file (process_folder demo_world demo_config (init_csv_file demo_server)
     ''mixed''))) = [CStr ''image_file'', CStr ''z.jpg'', CStr ''a.jpg''] \<and>
   \<not> sorted [''z.jpg'', ''a.jpg'']"
  unfolding demo_folder_mixed demo_csv_mixed
  by (simp add: demo_world_def csv_header_def)



text \<open>
  Claim C4, amended. For every folder command that returns results, the results are in
  the order in which the directory listing gives the image files (the names that end in
  one of the four extensions, each joined to the folder), and \<^verbatim>\<open>_process_folder\<close>
  appends the rows of the detection log result by result in that same order.
\<close>

theorem folder_results_in_listing_order:
  assumes "listdir w folder = Some names"
    and "fst (infer_folder w cfg s folder sd) = Inr (Processed m rs)"
  shows "map input_path rs =
           map (path_join folder)
             (filter (\<lambda>filename. list_ex (endswith (lower filename)) image_extensions) names) \<and>
         (path_exists w folder \<and> csv_file srv = Some old \<and> inferencer_state srv = s \<and>
          output_dir srv = sd \<longrightarrow>
            csv_file (process_folder w cfg srv folder) = Some (old @ concat (map result_rows rs)))"
proof
  let ?body = "\<lambda>s p. run_pipeline (postprocess_core w cfg (conf_th cfg) (show_labels cfg)
                  (show_conf cfg) True) w cfg s p sd"
  from infer_folder_with_results[OF assms(2)[unfolded infer_folder_as_loop]]
  obtain ps where ps: "get_images_from_folder w folder = Inr ps"
    "rs = fst (infer_images ?body ps ((reset_counters cfg s)\<lparr>num_frames := length ps\<rparr>))"
    by blast
  have "map input_path rs = ps" unfolding ps(2) by (rule infer_images_results)
  moreover have "ps = map (path_join folder)
             (filter (\<lambda>filename. list_ex (endswith (lower filename)) image_extensions) names)"
    using ps(1) assms(1) by (simp add: get_images_from_folder_def)
  ultimately show "map input_path rs =
           map (path_join folder)
             (filter (\<lambda>filename. list_ex (endswith (lower filename)) image_extensions) names)"
    by simp
  show "path_exists w folder \<and> csv_file srv = Some old \<and> inferencer_state srv = s \<and>
          output_dir srv = sd \<longrightarrow>
            csv_file (process_folder w cfg srv folder) = Some (old @ concat (map result_rows rs))"
    using process_folder_appends[of w folder srv old cfg m rs] assms(2) by auto
qed

theorem folder_results_in_listing_order_witness:
  "listdir demo_world ''in'' = Some [''a.jpg'', ''b.jpg'', ''notes.txt'', ''c.PNG''] \<and>
   map input_path (folder_results (projr (fst
     (infer_folder demo_world demo_config (initial_inferencer demo_config) ''in'' ''out'')))) =
     [''in/a.jpg'', ''in/b.jpg'', ''in/c.PNG''] \<and>
   csv_file (process_folder demo_world demo_config (init_csv_file demo_server) ''in'') =
     Some ([csv_header] @ concat (map result_rows (folder_results (projr (fst
       (infer_folder demo_world demo_config (initial_inferencer demo_config) ''in'' ''out''))))))"
proof -
  let ?srv = "init_csv_file demo_server"
  have l: "listdir demo_world ''in'' = Some [''a.jpg'', ''b.jpg'', ''notes.txt'', ''c.PNG'']"
    by (simp add: demo_world_def)
  have h: "path_exists demo_world ''in'' \<and> csv_file ?srv = Some [csv_header] \<and>
      inferencer_state ?srv = initial_inferencer demo_config \<and> output_dir ?srv = ''out''"
    by (simp add: demo_world_def demo_server_def init_csv_file_def)
  note t = folder_results_in_listing_order[OF l demo_folder, where srv = ?srv
      and old = "[csv_header]"]
  from t[THEN conjunct1]
  have c1: "map input_path (folder_results (projr (fst
     (infer_folder demo_world demo_config (initial_inferencer demo_config) ''in'' ''out'')))) =
     [''in/a.jpg'', ''in/b.jpg'', ''in/c.PNG'']"
    unfolding demo_folder by simp
  from t[THEN conjunct2, THEN mp, OF h]
  have c2: "csv_file (process_folder demo_world demo_config ?srv ''in'') =
     Some ([csv_header] @ concat (map result_rows (folder_results (projr (fst
       (infer_folder demo_world demo_config (initial_inferencer demo_config) ''in'' ''out''))))))"
    unfolding demo_folder by simp
  from l c1 c2 show ?thesis by blast
qed

section \<open>The detection log\<close>

text \<open>
  Claim C8. \<^verbatim>\<open>_init_csv_file\<close> writes the header row when the file does not exist
  and leaves an existing file as it is. \<^verbatim>\<open>_write_detections_to_csv\<close>,
  \<^verbatim>\<open>_process_single_image\<close> and \<^verbatim>\<open>_process_folder\<close> keep what the file holds and
  put rows after it, none of them the header: one row per detection for detections that
  carry the normalised box, as all detections of this server do, so a single-image
  command that succeeds adds as many rows as its result has detections. A file created
  by \<^verbatim>\<open>_init_csv_file\<close> therefore begins with the header and holds it once.
\<close>

theorem detection_log_append_only:
  "(csv_file srv = None \<longrightarrow> csv_file (init_csv_file srv) = Some [csv_header]) \<and>
   (csv_file srv \<noteq> None \<longrightarrow> init_csv_file srv = srv) \<and>
   (csv_file srv = Some old \<longrightarrow>
      (\<exists>rows. csv_file (snd (write_detections_to_csv srv image_path dets)) = Some (old @ rows) \<and>
         length rows \<le> length dets \<and> csv_header \<notin> set rows \<and>
         ((\<forall>d \<in> set dets. det_yolo_bbox d \<noteq> None) \<longrightarrow> length rows = length dets)) \<and>
      (\<exists>rows. csv_file (process_single_image w cfg srv image_path) = Some (old @ rows) \<and>
         csv_header \<notin> set rows \<and>
         (path_exists w image_path \<and>
          success (fst (infer_single_image w cfg (inferencer_state srv) image_path
                          (output_dir srv) True)) \<longrightarrow>
            length rows =
              length (the (detections (fst (infer_single_image w cfg (inferencer_state srv)
                                               image_path (output_dir srv) True)))))) \<and>
      (\<exists>rows. csv_file (process_folder w cfg srv folder_path) = Some (old @ rows) \<and>
         csv_header \<notin> set rows))"
proof (intro conjI impI)
  show "csv_file (init_csv_file srv) = Some [csv_header]" if "csv_file srv = None"
    using that by (simp add: init_csv_file_def)
  show "init_csv_file srv = srv" if "csv_file srv \<noteq> None"
    using that by (auto simp: init_csv_file_def)
next
  assume old: "csv_file srv = Some old"
  note wa = write_detections_appends[OF old, of image_path dets]
  note df = detection_rows_facts[of "basename image_path" dets]
  show "\<exists>rows. csv_file (snd (write_detections_to_csv srv image_path dets)) = Some (old @ rows) \<and>
         length rows \<le> length dets \<and> csv_header \<notin> set rows \<and>
         ((\<forall>d \<in> set dets. det_yolo_bbox d \<noteq> None) \<longrightarrow> length rows = length dets)"
    by (rule exI[where x = "fst (detection_rows (basename image_path) dets)"])
       (use wa(1) df in auto)
next
  assume old: "csv_file srv = Some old"
  let ?run = "infer_single_image w cfg (inferencer_state srv) image_path (output_dir srv) True"
  obtain r s' where run: "?run = (r, s')" by (cases ?run)
  let ?srv1 = "srv\<lparr>inferencer_state := s'\<rparr>"
  have c: "csv_file ?srv1 = Some old" using old by simp
  show "\<exists>rows. csv_file (process_single_image w cfg srv image_path) = Some (old @ rows) \<and>
         csv_header \<notin> set rows \<and>
         (path_exists w image_path \<and> success (fst ?run) \<longrightarrow>
            length rows = length (the (detections (fst ?run))))"
  proof (cases "path_exists w image_path \<and> success r \<and> detections r \<noteq> None")
    case True
    then obtain dets where d: "detections r = Some dets" by auto
    note wa = write_detections_appends[OF c, of image_path dets]
    note df = detection_rows_facts[of "basename image_path" dets]
    have y: "\<forall>d \<in> set dets. det_yolo_bbox d \<noteq> None"
      using run_pipeline_yolo[OF run[unfolded infer_single_image_reset] _ d] True by blast
    have "process_single_image w cfg srv image_path =
        snd (write_detections_to_csv ?srv1 image_path dets)"
      using True d run by (simp add: process_single_image_def Let_def)
    then show ?thesis
      using wa(1) df y d run
      by (intro exI[where x = "fst (detection_rows (basename image_path) dets)"]) auto
  next
    case False
    have ok: "success r \<Longrightarrow> detections r \<noteq> None"
      using infer_single_image_success[of w cfg "inferencer_state srv" image_path "output_dir srv"]
        run by auto
    from False ok have "csv_file (process_single_image w cfg srv image_path) = Some old"
      using run old by (auto simp: process_single_image_def Let_def split: option.splits)
    with False ok run show ?thesis
      by (intro exI[where x = "[]"]) auto
  qed
next
  assume old: "csv_file srv = Some old"
  let ?run = "infer_folder w cfg (inferencer_state srv) folder_path (output_dir srv)"
  obtain r s' where run: "?run = (r, s')" by (cases ?run)
  let ?srv1 = "srv\<lparr>inferencer_state := s'\<rparr>"
  have c: "csv_file ?srv1 = Some old" using old by simp
  show "\<exists>rows. csv_file (process_folder w cfg srv folder_path) = Some (old @ rows) \<and>
         csv_header \<notin> set rows"
  proof (cases "path_exists w folder_path \<and> (\<exists>m rs. r = Inr (Processed m rs))")
    case True
    then obtain m rs where r: "r = Inr (Processed m rs)" by blast
    from write_results_appends[OF c, of rs] obtain rows where
      "csv_file (write_results ?srv1 rs) = Some (old @ rows)" "csv_header \<notin> set rows" by blast
    moreover have "process_folder w cfg srv folder_path = write_results ?srv1 rs"
      using True r run by (simp add: process_folder_def Let_def)
    ultimately show ?thesis by auto
  next
    case False
    then have "csv_file (process_folder w cfg srv folder_path) = Some old"
      using run old
      by (cases r; cases "projr r")
         (auto simp: process_folder_def Let_def split: sum.splits)
    then show ?thesis by (intro exI[where x = "[]"]) auto
  qed
qed


theorem detection_log_append_only_witness:
  "csv_file demo_server = None \<and>
   csv_file (init_csv_file demo_server) = Some [csv_header] \<and>
   init_csv_file (init_csv_file demo_server) = init_csv_file demo_server \<and>
   (\<exists>rows. csv_file (snd (write_detections_to_csv (init_csv_file demo_server) ''in/a.jpg''
        [\<lparr>det_class = ''car'', det_confidence = Fin (9 / 10), det_bbox = (100, 60, 17, 30),
          det_yolo_bbox = Some (217 / 2, 100, 17, 40)\<rparr>])) = Some ([csv_header] @ rows) \<and>
      length rows = 1 \<and> csv_header \<notin> set rows) \<and>
   (\<exists>rows. csv_file (process_single_image demo_world demo_config (init_csv_file demo_server)
        ''in/a.jpg'') = Some ([csv_header] @ rows) \<and> csv_header \<notin> set rows \<and> length rows = 1) \<and>
   (\<exists>rows. csv_file (process_folder demo_world demo_config (init_csv_file demo_server) ''mixed'') =
        Some ([csv_header] @ rows) \<and> csv_header \<notin> set rows)"
proof -
  let ?srv = "init_csv_file demo_server"
  let ?d = "\<lparr>det_class = ''car'', det_confidence = Fin (9 / 10), det_bbox = (100, 60, 17, 30),
          det_yolo_bbox = Some (217 / 2, 100, 17, 40)\<rparr>"
  have n: "csv_file demo_server = None" by (simp add: demo_server_def)
  note t0 = detection_log_append_only[where srv = demo_server]
  note t1 = detection_log_append_only[where srv = ?srv and old = "[csv_header]"
      and w = demo_world and cfg = demo_config and image_path = "''in/a.jpg''"
      and folder_path = "''mixed''" and dets = "[?d]"]
  from t0[THEN conjunct1, THEN mp, OF n]
  have c1: "csv_file ?srv = Some [csv_header]" .
  then have nn: "csv_file ?srv \<noteq> None" by simp
  from t1[THEN conjunct2, THEN conjunct1, THEN mp, OF nn]
  have c2: "init_csv_file ?srv = ?srv" .
  note rest = t1[THEN conjunct2, THEN conjunct2, THEN mp, OF c1]
  from rest[THEN conjunct1]
  have c3: "\<exists>rows. csv_file (snd (write_detections_to_csv ?srv ''in/a.jpg'' [?d])) =
      Some ([csv_header] @ rows) \<and> length rows = 1 \<and> csv_header \<notin> set rows"
    by auto
  have ok: "path_exists demo_world ''in/a.jpg'' \<and>
      success (fst (infer_single_image demo_world demo_config (inferencer_state ?srv) ''in/a.jpg''
        (output_dir ?srv) True))"
    by (simp add: demo_single_counts demo_server_def init_csv_file_def) (simp add: demo_world_def)
  have od: "output_dir ?srv = ''out''" by (simp add: demo_server_def init_csv_file_def)
  from rest[THEN conjunct2, THEN conjunct1] ok
  have c4: "\<exists>rows. csv_file (process_single_image demo_world demo_config ?srv ''in/a.jpg'') =
      Some ([csv_header] @ rows) \<and> csv_header \<notin> set rows \<and> length rows = 1"
    unfolding od demo_single_detections by blast
  from rest[THEN conjunct2, THEN conjunct2]
  have c5: "\<exists>rows. csv_file (process_folder demo_world demo_config ?srv ''mixed'') =
        Some ([csv_header] @ rows) \<and> csv_header \<notin> set rows" .
  from n c1 c2 c3 c4 c5 show ?thesis by blast
qed


section \<open>The suppressor, against its specification\<close>




end
